theory Spec2Isabelle
  imports Complex_Main "HOL-Library.Sublist" "HOL-Library.Char_ord" "HOL-Library.List_Lexorder"
    "HOL-Library.Multiset"
begin

section \<open>Data model\<close>

text \<open>
  The Prisma model \<^verbatim>\<open>Note\<close> as \<^verbatim>\<open>notes.service.ts\<close> and the client use it:
  \<^verbatim>\<open>id\<close>, \<^verbatim>\<open>userId\<close>, \<^verbatim>\<open>title\<close>, \<^verbatim>\<open>content\<close>, \<^verbatim>\<open>tags\<close>, \<^verbatim>\<open>createdAt\<close>, \<^verbatim>\<open>updatedAt\<close>.
  Field names carry the prefix \<open>note_\<close> because record fields are global constants.
  Timestamps are integers (milliseconds).
\<close>

record Note =
  note_id :: string
  note_userId :: string
  note_title :: string
  note_content :: string
  note_tags :: "string list"
  note_createdAt :: int
  note_updatedAt :: int

text \<open>\<^verbatim>\<open>CreateNoteDto\<close>: \<^verbatim>\<open>title\<close>, \<^verbatim>\<open>content\<close>, optional \<^verbatim>\<open>tags\<close>.\<close>

record CreateNoteDto =
  cn_title :: string
  cn_content :: string
  cn_tags :: "string list option"

text \<open>\<^verbatim>\<open>UpdateNoteDto\<close>: every field optional.\<close>

record UpdateNoteDto =
  un_title :: "string option"
  un_content :: "string option"
  un_tags :: "string list option"

text \<open>\<^verbatim>\<open>QueryNotesDto\<close>: optional \<^verbatim>\<open>search\<close>, \<^verbatim>\<open>tags\<close>, \<^verbatim>\<open>page\<close>, \<^verbatim>\<open>limit\<close>.\<close>

record QueryNotesDto =
  q_search :: "string option"
  q_tags :: "string list option"
  q_page :: "int option"
  q_limit :: "int option"

text \<open>
  The result of \<^verbatim>\<open>Math.ceil(total / limit)\<close> is a JavaScript number: a division by zero
  gives \<^verbatim>\<open>Infinity\<close> or \<^verbatim>\<open>NaN\<close>, not an exception.
\<close>

datatype js_number = Finite int | Infinity | NaN

text \<open>\<^verbatim>\<open>PaginatedNotes\<close>: \<^verbatim>\<open>notes\<close>, \<^verbatim>\<open>total\<close>, \<^verbatim>\<open>page\<close>, \<^verbatim>\<open>limit\<close>, \<^verbatim>\<open>totalPages\<close>.\<close>

record PaginatedNotes =
  pn_notes :: "Note list"
  pn_total :: int
  pn_page :: int
  pn_limit :: int
  pn_totalPages :: js_number

text \<open>
  The exceptions of the service as values: the validation failure of a DTO,
  \<^verbatim>\<open>NotFoundException\<close>, \<^verbatim>\<open>ForbiddenException\<close>, and an error thrown by the note store.
\<close>

datatype error = ValidationError | NotFound | Forbidden | StoreError

section \<open>The cache service\<close>

text \<open>
  Modelled from the spec: \<^verbatim>\<open>cache/cache.service.ts\<close> (\<^verbatim>\<open>generateNotesSearchKey\<close>,
  \<^verbatim>\<open>get\<close>, \<^verbatim>\<open>set\<close>, \<^verbatim>\<open>invalidateUserNotesCache\<close>) is not among the sources; only its
  callers are. The spec derives the key from the user id, the term (empty string if
  absent), the deduplicated sorted tag list joined by a separator, the page and the page
  size. The key is kept as these five components.
\<close>

datatype cache_key = NotesSearchKey
  (key_user: string) (key_term: string) (key_tags: string) (key_page: int) (key_limit: int)

text \<open>Modelled from the spec: the tag list joined by a separator.\<close>

fun join :: "string \<Rightarrow> string list \<Rightarrow> string" where
  "join sep [] = []"
| "join sep [x] = x"
| "join sep (x # y # ys) = x @ sep @ join sep (y # ys)"

text \<open>Modelled from the spec: the tag set deduplicated and sorted before key derivation.\<close>

definition normalize_tags :: "string list option \<Rightarrow> string list" where
  "normalize_tags tags = (case tags of None \<Rightarrow> [] | Some ts \<Rightarrow> sort (remdups ts))"

text \<open>Modelled from the spec: the key derivation of the absent cache service.\<close>

definition generateNotesSearchKey ::
  "string \<Rightarrow> string option \<Rightarrow> string list option \<Rightarrow> int \<Rightarrow> int \<Rightarrow> cache_key" where
  "generateNotesSearchKey userId search tags page limit =
     NotesSearchKey userId (case search of None \<Rightarrow> [] | Some t \<Rightarrow> t)
       (join '','' (normalize_tags tags)) page limit"

text \<open>
  Modelled from the spec: a cache entry is a value with its time to live in seconds; the
  store maps keys to entries. Expiry by the passing of real time is outside the model, so
  an entry stays until it is invalidated.
\<close>

type_synonym cache_store = "cache_key \<rightharpoonup> (PaginatedNotes \<times> nat)"

text \<open>Modelled from the spec: \<^verbatim>\<open>get(key)\<close> returns the value or absent.\<close>

definition cache_get :: "cache_store \<Rightarrow> cache_key \<Rightarrow> PaginatedNotes option" where
  "cache_get c k = map_option fst (c k)"

text \<open>Modelled from the spec: \<^verbatim>\<open>set(key, value, ttlSeconds)\<close>.\<close>

definition cache_set :: "cache_store \<Rightarrow> cache_key \<Rightarrow> PaginatedNotes \<Rightarrow> nat \<Rightarrow> cache_store" where
  "cache_set c k v ttl = c(k \<mapsto> (v, ttl))"

text \<open>
  Modelled from the spec: invalidation deletes every key under the user-scoped prefix,
  that is, every key derived for that user.
\<close>

definition invalidateUserNotesCache :: "cache_store \<Rightarrow> string \<Rightarrow> cache_store" where
  "invalidateUserNotesCache c userId = (\<lambda>k. if key_user k = userId then None else c k)"

section \<open>The note store\<close>

text \<open>
  The note table behind the Prisma client is the list of its rows. The operations below
  are those \<^verbatim>\<open>notes.service.ts\<close> calls on \<^verbatim>\<open>prisma.note\<close>, with the arguments it
  passes. The schema file is not among the sources; that the store sets the id and both
  timestamps of a new note, and \<^verbatim>\<open>updatedAt\<close> on every update, is the data model of the
  specification.
\<close>

type_synonym note_db = "Note list"

definition to_lower :: "char \<Rightarrow> char" where
  "to_lower c = (if CHR ''A'' \<le> c \<and> c \<le> CHR ''Z'' then char_of (of_char c + (32::nat)) else c)"

text \<open>
  \<open>like_match p s\<close>: the string \<open>s\<close> matches the pattern \<open>p\<close> of the database's
  \<^verbatim>\<open>LIKE\<close>. A percent sign stands for any run of characters, an underscore for any one
  character, a backslash takes the character after it literally, and every other
  character stands for itself.
\<close>

fun like_match :: "string \<Rightarrow> string \<Rightarrow> bool" where
  "like_match [] s = (s = [])"
| "like_match (p # ps) [] = (p = CHR ''%'' \<and> like_match ps [])"
| "like_match (p # ps) (c # cs) =
     (if p = CHR ''%'' then like_match ps (c # cs) \<or> like_match (p # ps) cs
      else if p = CHR ''_'' then like_match ps cs
      else if p = CHR 0x5C then (case ps of [] \<Rightarrow> False | q # qs \<Rightarrow> c = q \<and> like_match qs cs)
      else c = p \<and> like_match ps cs)"

text \<open>
  \<^verbatim>\<open>{ contains: search, mode: 'insensitive' }\<close>: Prisma puts the term between two
  percent signs and hands it to \<^verbatim>\<open>ILIKE\<close> as it is, so a percent sign, an underscore or a
  backslash inside the term is read as part of the pattern. The comparison ignores case, here
  on ASCII letters. The pattern ends with the percent sign that Prisma appends, so it never
  ends with a backslash that has nothing after it.
\<close>

definition contains_insensitive :: "string \<Rightarrow> string \<Rightarrow> bool" where
  "contains_insensitive s t =
     like_match (map to_lower (CHR ''%'' # t @ [CHR ''%''])) (map to_lower s)"

text \<open>\<^verbatim>\<open>{ hasEvery: tags }\<close>: every requested tag is among the note's tags.\<close>

definition hasEvery :: "string list \<Rightarrow> string list \<Rightarrow> bool" where
  "hasEvery noteTags tags = list_all (\<lambda>t. t \<in> set noteTags) tags"

text \<open>
  The \<^verbatim>\<open>where\<close> object that \<^verbatim>\<open>findAll\<close> builds: \<^verbatim>\<open>userId\<close> always, \<^verbatim>\<open>OR\<close> (title or
  content contains the term) and \<^verbatim>\<open>tags.hasEvery\<close> only when set.
\<close>

record note_where =
  w_userId :: string
  w_OR :: "string option"
  w_tags :: "string list option"

definition note_matches :: "note_where \<Rightarrow> Note \<Rightarrow> bool" where
  "note_matches wh n \<longleftrightarrow>
     note_userId n = w_userId wh
     \<and> (case w_OR wh of None \<Rightarrow> True
         | Some t \<Rightarrow> contains_insensitive (note_title n) t \<or> contains_insensitive (note_content n) t)
     \<and> (case w_tags wh of None \<Rightarrow> True | Some ts \<Rightarrow> hasEvery (note_tags n) ts)"

text \<open>
  \<^verbatim>\<open>orderBy: { updatedAt: 'desc' }\<close>. The query names no second sort key, and the
  database promises no order among rows with equal \<^verbatim>\<open>updatedAt\<close>: it is the store that
  settles it, and not the same way for every query. The store's choice is the parameter
  \<open>rank\<close>, which nothing constrains: rows with equal \<^verbatim>\<open>updatedAt\<close> come in the order of
  their rank.
\<close>

definition orderBy_updatedAt_desc :: "(Note \<Rightarrow> nat) \<Rightarrow> Note list \<Rightarrow> Note list" where
  "orderBy_updatedAt_desc rank ns = sort_key (\<lambda>n. - note_updatedAt n) (sort_key rank ns)"

text \<open>
  \<^verbatim>\<open>skip\<close> and \<^verbatim>\<open>take\<close>: Prisma rejects a negative \<^verbatim>\<open>skip\<close>; a negative \<^verbatim>\<open>take\<close>
  counts from the end of the ordered list.
\<close>

definition skip_take :: "int \<Rightarrow> int \<Rightarrow> 'a list \<Rightarrow> error + 'a list" where
  "skip_take skip tk xs =
     (if skip < 0 then Inl StoreError
      else if 0 \<le> tk then Inr (take (nat tk) (drop (nat skip) xs))
      else Inr (rev (take (nat (- tk)) (drop (nat skip) (rev xs)))))"

text \<open>
  \<open>tie skip take\<close> is the rank the store gives the rows when it answers a query with
  that \<^verbatim>\<open>skip\<close> and \<^verbatim>\<open>take\<close>.
\<close>

definition prisma_note_findMany ::
  "note_db \<Rightarrow> (int \<Rightarrow> int \<Rightarrow> Note \<Rightarrow> nat) \<Rightarrow> note_where \<Rightarrow> int \<Rightarrow> int \<Rightarrow> error + Note list" where
  "prisma_note_findMany db tie wh skip tk =
     skip_take skip tk (orderBy_updatedAt_desc (tie skip tk) (filter (note_matches wh) db))"

definition prisma_note_count :: "note_db \<Rightarrow> note_where \<Rightarrow> int" where
  "prisma_note_count db wh = int (length (filter (note_matches wh) db))"

definition prisma_note_findUnique :: "note_db \<Rightarrow> string \<Rightarrow> Note option" where
  "prisma_note_findUnique db i = find (\<lambda>n. note_id n = i) db"

text \<open>
  A write can fail for reasons the table does not show: the connection is lost, the database
  is read-only or out of space. The parameter \<open>writable\<close> of the three writing operations
  says whether the store carries the write out; when it does not, the call throws and the
  table is as before.
\<close>

text \<open>
  \<^verbatim>\<open>prisma.note.create\<close>: the store generates the id and both timestamps (\<open>newId\<close>,
  \<open>now\<close>); the id is the primary key, so a duplicate is a constraint violation.
\<close>

definition prisma_note_create ::
  "note_db \<Rightarrow> bool \<Rightarrow> string \<Rightarrow> string \<Rightarrow> string list \<Rightarrow> string \<Rightarrow> string \<Rightarrow> int
     \<Rightarrow> error + (Note \<times> note_db)" where
  "prisma_note_create db writable title content tags userId newId now =
     (if \<not> writable then Inl StoreError
      else if newId \<in> set (map note_id db) then Inl StoreError
      else let note = \<lparr>note_id = newId, note_userId = userId, note_title = title,
                        note_content = content, note_tags = tags,
                        note_createdAt = now, note_updatedAt = now\<rparr>
           in Inr (note, db @ [note]))"

text \<open>
  \<^verbatim>\<open>prisma.note.update({ where: { id }, data: updateNoteDto })\<close>: a field that is
  \<^verbatim>\<open>undefined\<close> in \<^verbatim>\<open>data\<close> is left as it is; \<^verbatim>\<open>updatedAt\<close> is set by the store.
\<close>

definition apply_update :: "UpdateNoteDto \<Rightarrow> int \<Rightarrow> Note \<Rightarrow> Note" where
  "apply_update dto now n =
     n\<lparr>note_title := (case un_title dto of None \<Rightarrow> note_title n | Some t \<Rightarrow> t),
       note_content := (case un_content dto of None \<Rightarrow> note_content n | Some c \<Rightarrow> c),
       note_tags := (case un_tags dto of None \<Rightarrow> note_tags n | Some ts \<Rightarrow> ts),
       note_updatedAt := now\<rparr>"

text \<open>The update of a row that does not exist throws as well.\<close>

definition prisma_note_update ::
  "note_db \<Rightarrow> bool \<Rightarrow> string \<Rightarrow> UpdateNoteDto \<Rightarrow> int \<Rightarrow> error + (Note \<times> note_db)" where
  "prisma_note_update db writable i dto now =
     (if \<not> writable then Inl StoreError
      else case prisma_note_findUnique db i of
        None \<Rightarrow> Inl StoreError
      | Some n \<Rightarrow> Inr (apply_update dto now n,
                       map (\<lambda>m. if note_id m = i then apply_update dto now m else m) db))"

text \<open>\<^verbatim>\<open>prisma.note.delete({ where: { id } })\<close>; a row that does not exist throws.\<close>

definition prisma_note_delete :: "note_db \<Rightarrow> bool \<Rightarrow> string \<Rightarrow> error + note_db" where
  "prisma_note_delete db writable i =
     (if \<not> writable then Inl StoreError
      else case prisma_note_findUnique db i of
        None \<Rightarrow> Inl StoreError
      | Some n \<Rightarrow> Inr (filter (\<lambda>m. note_id m \<noteq> i) db))"

section \<open>NotesService\<close>

text \<open>
  The service holds the note store and the cache; each method takes the state and returns
  it. An exception is the value \<open>Inl\<close>; the statements after the \<^verbatim>\<open>await\<close> that threw are
  not run, so the state is returned as it was. Of the store the state holds the table
  \<open>db\<close> and the two things the service cannot see: \<open>store_writable\<close>, whether the store
  carries out a write, and \<open>store_tie\<close>, the rank by which it arranges rows that the
  requested order leaves tied. No method changes these two.
\<close>

record state =
  db :: note_db
  cache :: cache_store
  store_writable :: bool
  store_tie :: "int \<Rightarrow> int \<Rightarrow> Note \<Rightarrow> nat"

text \<open>
  \<^verbatim>\<open>Math.ceil(total / limit)\<close>; the dividend is a row count, never negative. On
  integers \<open>div\<close> rounds down, so the ceiling of \<open>a / b\<close> is \<open>- ((- a) div b)\<close>.
\<close>

definition math_ceil_div :: "int \<Rightarrow> int \<Rightarrow> js_number" where
  "math_ceil_div cnt limit =
     (if limit = 0 then (if cnt = 0 then NaN else Infinity)
      else Finite (- ((- cnt) div limit)))"

definition create ::
  "string \<Rightarrow> CreateNoteDto \<Rightarrow> string \<Rightarrow> int \<Rightarrow> state \<Rightarrow> (error + Note) \<times> state" where
  "create userId createNoteDto newId now s =
     (case prisma_note_create (db s) (store_writable s)
             (cn_title createNoteDto) (cn_content createNoteDto)
             (case cn_tags createNoteDto of None \<Rightarrow> [] | Some ts \<Rightarrow> ts) userId newId now of
        Inl e \<Rightarrow> (Inl e, s)
      | Inr (note, db') \<Rightarrow>
          (Inr note, s\<lparr>db := db', cache := invalidateUserNotesCache (cache s) userId\<rparr>))"

text \<open>
  The \<^verbatim>\<open>where\<close> object: \<^verbatim>\<open>if (search)\<close> is false for an absent and for an empty term,
  \<^verbatim>\<open>if (tags && tags.length > 0)\<close> for an absent and for an empty tag list.
\<close>

definition build_where :: "string \<Rightarrow> string option \<Rightarrow> string list option \<Rightarrow> note_where" where
  "build_where userId search tags =
     \<lparr>w_userId = userId,
      w_OR = (case search of None \<Rightarrow> None | Some t \<Rightarrow> if t = [] then None else Some t),
      w_tags = (case tags of None \<Rightarrow> None | Some ts \<Rightarrow> if 0 < length ts then Some ts else None)\<rparr>"

text \<open>
  The part of \<^verbatim>\<open>findAll\<close> after a cache miss, up to the result object: \<^verbatim>\<open>skip\<close>, the
  two store calls under \<^verbatim>\<open>Promise.all\<close>, and \<^verbatim>\<open>Math.ceil(total / limit)\<close>.
\<close>

definition query_store ::
  "note_db \<Rightarrow> (int \<Rightarrow> int \<Rightarrow> Note \<Rightarrow> nat) \<Rightarrow> string \<Rightarrow> string option \<Rightarrow> string list option
     \<Rightarrow> int \<Rightarrow> int \<Rightarrow> error + PaginatedNotes" where
  "query_store d tie userId search tags page limit =
     (let skip = (page - 1) * limit;
          wh = build_where userId search tags
      in case prisma_note_findMany d tie wh skip limit of
           Inl e \<Rightarrow> Inl e
         | Inr notes \<Rightarrow>
             let cnt = prisma_note_count d wh
             in Inr \<lparr>pn_notes = notes, pn_total = cnt, pn_page = page, pn_limit = limit,
                     pn_totalPages = math_ceil_div cnt limit\<rparr>)"

text \<open>
  \<^verbatim>\<open>findAll\<close>: \<^verbatim>\<open>page\<close> and \<^verbatim>\<open>limit\<close> default to 1 and 10 and are otherwise used as
  given. A cached page is an object, so \<^verbatim>\<open>if (cachedResult)\<close> holds whenever the cache
  has an entry. The result of a miss is stored for 300 seconds.
\<close>

definition findAll :: "string \<Rightarrow> QueryNotesDto \<Rightarrow> state \<Rightarrow> (error + PaginatedNotes) \<times> state" where
  "findAll userId queryDto s =
     (let search = q_search queryDto;
          tags = q_tags queryDto;
          page = (case q_page queryDto of None \<Rightarrow> 1 | Some p \<Rightarrow> p);
          limit = (case q_limit queryDto of None \<Rightarrow> 10 | Some l \<Rightarrow> l);
          cacheKey = generateNotesSearchKey userId search tags page limit
      in case cache_get (cache s) cacheKey of
           Some cachedResult \<Rightarrow> (Inr cachedResult, s)
         | None \<Rightarrow>
             (case query_store (db s) (store_tie s) userId search tags page limit of
                Inl e \<Rightarrow> (Inl e, s)
              | Inr result \<Rightarrow>
                  (Inr result, s\<lparr>cache := cache_set (cache s) cacheKey result 300\<rparr>)))"

definition findOne :: "string \<Rightarrow> string \<Rightarrow> state \<Rightarrow> error + Note" where
  "findOne i userId s =
     (case prisma_note_findUnique (db s) i of
        None \<Rightarrow> Inl NotFound
      | Some note \<Rightarrow> if note_userId note \<noteq> userId then Inl Forbidden else Inr note)"

definition update ::
  "string \<Rightarrow> string \<Rightarrow> UpdateNoteDto \<Rightarrow> int \<Rightarrow> state \<Rightarrow> (error + Note) \<times> state" where
  "update i userId updateNoteDto now s =
     (case findOne i userId s of
        Inl e \<Rightarrow> (Inl e, s)
      | Inr _ \<Rightarrow>
          (case prisma_note_update (db s) (store_writable s) i updateNoteDto now of
             Inl e \<Rightarrow> (Inl e, s)
           | Inr (note, db') \<Rightarrow>
               (Inr note, s\<lparr>db := db', cache := invalidateUserNotesCache (cache s) userId\<rparr>)))"

definition remove :: "string \<Rightarrow> string \<Rightarrow> state \<Rightarrow> (error + unit) \<times> state" where
  "remove i userId s =
     (case findOne i userId s of
        Inl e \<Rightarrow> (Inl e, s)
      | Inr _ \<Rightarrow>
          (case prisma_note_delete (db s) (store_writable s) i of
             Inl e \<Rightarrow> (Inl e, s)
           | Inr db' \<Rightarrow>
               (Inr (), s\<lparr>db := db', cache := invalidateUserNotesCache (cache s) userId\<rparr>)))"

section \<open>Request validation\<close>

text \<open>
  The decorators of the DTO classes, applied to a request before the controller hands it
  to the service: \<^verbatim>\<open>@IsNotEmpty()\<close> on \<^verbatim>\<open>title\<close> and on \<^verbatim>\<open>content\<close> of
  \<^verbatim>\<open>CreateNoteDto\<close>; \<^verbatim>\<open>@IsInt() @Min(1)\<close> on \<^verbatim>\<open>page\<close> and \<^verbatim>\<open>limit\<close> of
  \<^verbatim>\<open>QueryNotesDto\<close>, both \<^verbatim>\<open>@IsOptional()\<close>.
\<close>

definition validate_CreateNoteDto :: "CreateNoteDto \<Rightarrow> error + CreateNoteDto" where
  "validate_CreateNoteDto dto =
     (if cn_title dto = [] \<or> cn_content dto = [] then Inl ValidationError else Inr dto)"

definition validate_QueryNotesDto :: "QueryNotesDto \<Rightarrow> error + QueryNotesDto" where
  "validate_QueryNotesDto dto =
     (if (case q_page dto of None \<Rightarrow> True | Some p \<Rightarrow> 1 \<le> p)
         \<and> (case q_limit dto of None \<Rightarrow> True | Some l \<Rightarrow> 1 \<le> l)
      then Inr dto else Inl ValidationError)"

text \<open>\<^verbatim>\<open>NotesController.create\<close> and \<^verbatim>\<open>NotesController.findAll\<close> behind the validation.\<close>

definition controller_create ::
  "string \<Rightarrow> CreateNoteDto \<Rightarrow> string \<Rightarrow> int \<Rightarrow> state \<Rightarrow> (error + Note) \<times> state" where
  "controller_create userId body newId now s =
     (case validate_CreateNoteDto body of
        Inl e \<Rightarrow> (Inl e, s)
      | Inr dto \<Rightarrow> create userId dto newId now s)"

definition controller_findAll ::
  "string \<Rightarrow> QueryNotesDto \<Rightarrow> state \<Rightarrow> (error + PaginatedNotes) \<times> state" where
  "controller_findAll userId query s =
     (case validate_QueryNotesDto query of
        Inl e \<Rightarrow> (Inl e, s)
      | Inr dto \<Rightarrow> findAll userId dto s)"

section \<open>Notation for a query\<close>

text \<open>
  The page and the limit of a query with the defaults of the destructuring in
  \<^verbatim>\<open>findAll\<close>, the cache key of a query, and the result computed from the store.
\<close>

abbreviation page_of :: "QueryNotesDto \<Rightarrow> int" where
  "page_of q \<equiv> (case q_page q of None \<Rightarrow> 1 | Some p \<Rightarrow> p)"

abbreviation limit_of :: "QueryNotesDto \<Rightarrow> int" where
  "limit_of q \<equiv> (case q_limit q of None \<Rightarrow> 10 | Some l \<Rightarrow> l)"

abbreviation key_of :: "string \<Rightarrow> QueryNotesDto \<Rightarrow> cache_key" where
  "key_of u q \<equiv> generateNotesSearchKey u (q_search q) (q_tags q) (page_of q) (limit_of q)"

abbreviation fresh_of :: "state \<Rightarrow> string \<Rightarrow> QueryNotesDto \<Rightarrow> error + PaginatedNotes" where
  "fresh_of s u q \<equiv>
     query_store (db s) (store_tie s) u (q_search q) (q_tags q) (page_of q) (limit_of q)"

text \<open>
  What a query selects, written out: the note is the user's, the term if any matches
  the title or the content as the store matches it, and the note has every tag asked for.
\<close>

abbreviation selected_by :: "string \<Rightarrow> QueryNotesDto \<Rightarrow> Note \<Rightarrow> bool" where
  "selected_by u q n \<equiv>
     note_userId n = u
     \<and> (case q_search q of None \<Rightarrow> True
         | Some t \<Rightarrow> contains_insensitive (note_title n) t \<or> contains_insensitive (note_content n) t)
     \<and> (case q_tags q of None \<Rightarrow> True | Some ts \<Rightarrow> set ts \<subseteq> set (note_tags n))"

text \<open>The list the store arranges for a query, before \<^verbatim>\<open>skip\<close> and \<^verbatim>\<open>take\<close>.\<close>

abbreviation arranged_of :: "state \<Rightarrow> string \<Rightarrow> QueryNotesDto \<Rightarrow> Note list" where
  "arranged_of s u q \<equiv>
     orderBy_updatedAt_desc (store_tie s ((page_of q - 1) * limit_of q) (limit_of q))
       (filter (selected_by u q) (db s))"

text \<open>The notes in descending order of \<^verbatim>\<open>updatedAt\<close>, equal ones in any order.\<close>

abbreviation updatedAt_desc :: "Note list \<Rightarrow> bool" where
  "updatedAt_desc ns \<equiv> sorted_wrt (\<lambda>a b. note_updatedAt b \<le> note_updatedAt a) ns"

section \<open>The specification's predicates\<close>

text \<open>
  What the specification says a search selects, in its own words and not in those of the
  code: the note is the user's, the term is absent or a case-insensitive substring of the
  title or of the content, and the tag filter is absent or the note's tag set contains
  every requested tag. Two strings are compared without regard to case by writing both in
  capital letters. The code's \<open>note_matches\<close> is compared with it below.
\<close>

definition to_upper :: "char \<Rightarrow> char" where
  "to_upper c = (if CHR ''a'' \<le> c \<and> c \<le> CHR ''z'' then char_of (of_char c - (32::nat)) else c)"

definition ci_substring :: "string \<Rightarrow> string \<Rightarrow> bool" where
  "ci_substring t s \<longleftrightarrow> sublist (map to_upper t) (map to_upper s)"

definition spec_selects :: "string \<Rightarrow> string option \<Rightarrow> string list option \<Rightarrow> Note \<Rightarrow> bool" where
  "spec_selects u search tags n \<longleftrightarrow>
     note_userId n = u
     \<and> (case search of None \<Rightarrow> True
         | Some t \<Rightarrow> ci_substring t (note_title n) \<or> ci_substring t (note_content n))
     \<and> (case tags of None \<Rightarrow> True | Some ts \<Rightarrow> set ts \<subseteq> set (note_tags n))"

text \<open>
  A term that holds none of the characters which \<^verbatim>\<open>LIKE\<close> does not take literally.
\<close>

definition literal_term :: "string \<Rightarrow> bool" where
  "literal_term t \<longleftrightarrow> CHR ''%'' \<notin> set t \<and> CHR ''_'' \<notin> set t \<and> CHR 0x5C \<notin> set t"

text \<open>
  The order the specification asks for: later \<^verbatim>\<open>updatedAt\<close> first, and for equal
  \<^verbatim>\<open>updatedAt\<close> the smaller id first.
\<close>

definition spec_order :: "Note \<Rightarrow> Note \<Rightarrow> bool" where
  "spec_order a b \<longleftrightarrow>
     note_updatedAt b < note_updatedAt a
     \<or> (note_updatedAt a = note_updatedAt b \<and> note_id a \<le> note_id b)"

section \<open>Example data\<close>

text \<open>One note of user alice, and a state holding it with an empty cache.\<close>

definition alice_note :: Note where
  "alice_note = \<lparr>note_id = ''n1'', note_userId = ''alice'', note_title = ''Plan'',
     note_content = ''Buy milk'', note_tags = [''home''], note_createdAt = 1, note_updatedAt = 1\<rparr>"

definition s_alice :: state where
  "s_alice = \<lparr>db = [alice_note], cache = Map.empty, store_writable = True,
     store_tie = (\<lambda>skip tk n. 0)\<rparr>"

text \<open>The query without any parameter, its result on \<open>s_alice\<close>, and the state after it.\<close>

definition q_all :: QueryNotesDto where
  "q_all = \<lparr>q_search = None, q_tags = None, q_page = None, q_limit = None\<rparr>"

definition page_alice :: PaginatedNotes where
  "page_alice = \<lparr>pn_notes = [alice_note], pn_total = 1, pn_page = 1, pn_limit = 10,
     pn_totalPages = Finite 1\<rparr>"

definition s_cached :: state where
  "s_cached = \<lparr>db = [alice_note],
     cache = [generateNotesSearchKey ''alice'' None None 1 10 \<mapsto> (page_alice, 300)],
     store_writable = True, store_tie = (\<lambda>skip tk n. 0)\<rparr>"

text \<open>The same state with a store that refuses writes.\<close>

definition s_refusing :: state where
  "s_refusing = s_cached\<lparr>store_writable := False\<rparr>"

text \<open>
  Payloads: an update that carries a title only, one that empties the content, and two
  bodies for create, the second with an empty content.
\<close>

definition retitle :: UpdateNoteDto where
  "retitle = \<lparr>un_title = Some ''Plan B'', un_content = None, un_tags = None\<rparr>"

definition body2 :: CreateNoteDto where
  "body2 = \<lparr>cn_title = ''Todo'', cn_content = ''Call Bo'', cn_tags = Some [''work'']\<rparr>"

definition empty_content :: CreateNoteDto where
  "empty_content = \<lparr>cn_title = ''Todo'', cn_content = [], cn_tags = None\<rparr>"

definition clear_content :: UpdateNoteDto where
  "clear_content = \<lparr>un_title = None, un_content = Some [], un_tags = None\<rparr>"

text \<open>Queries for page 0, for page \<open>max 1 0\<close>, for a limit of 1000, and for page \<open>p\<close> of 10.\<close>

definition q_page0 :: QueryNotesDto where
  "q_page0 = \<lparr>q_search = None, q_tags = None, q_page = Some 0, q_limit = None\<rparr>"

definition q_page1 :: QueryNotesDto where
  "q_page1 = \<lparr>q_search = None, q_tags = None, q_page = Some (max 1 0), q_limit = None\<rparr>"

definition q_limit1000 :: QueryNotesDto where
  "q_limit1000 = \<lparr>q_search = None, q_tags = None, q_page = None, q_limit = Some 1000\<rparr>"

definition q_page :: "int \<Rightarrow> QueryNotesDto" where
  "q_page p = \<lparr>q_search = None, q_tags = None, q_page = Some p, q_limit = Some 10\<rparr>"



text \<open>
  Two notes with the same \<^verbatim>\<open>updatedAt\<close> and a third, more recent one; a table that
  holds the two in the order of their ids, and a store that, for a query, ranks the note
  with the larger id first.
\<close>

definition note_b :: Note where
  "note_b = \<lparr>note_id = ''b'', note_userId = ''alice'', note_title = ''Second'',
     note_content = ''two'', note_tags = [], note_createdAt = 5, note_updatedAt = 5\<rparr>"

definition note_a :: Note where
  "note_a = \<lparr>note_id = ''a'', note_userId = ''alice'', note_title = ''First'',
     note_content = ''one'', note_tags = [], note_createdAt = 5, note_updatedAt = 5\<rparr>"

definition note_c :: Note where
  "note_c = \<lparr>note_id = ''c'', note_userId = ''alice'', note_title = ''Third'',
     note_content = ''three'', note_tags = [], note_createdAt = 6, note_updatedAt = 9\<rparr>"

definition rank_b_first :: "int \<Rightarrow> int \<Rightarrow> Note \<Rightarrow> nat" where
  "rank_b_first skip tk n = (if note_id n = ''b'' then 0 else 1)"

definition s_tie :: state where
  "s_tie = \<lparr>db = [note_a, note_b], cache = Map.empty, store_writable = True,
     store_tie = rank_b_first\<rparr>"

definition s_order :: state where
  "s_order = \<lparr>db = [note_a, note_c, note_b], cache = Map.empty, store_writable = True,
     store_tie = rank_b_first\<rparr>"

text \<open>Tagged notes of alice and of bob, and queries by tags and by term.\<close>

definition note_work :: Note where
  "note_work = \<lparr>note_id = ''w1'', note_userId = ''alice'', note_title = ''Report'',
     note_content = ''Draft the report'', note_tags = [''work''],
     note_createdAt = 2, note_updatedAt = 2\<rparr>"

definition note_wue :: Note where
  "note_wue = \<lparr>note_id = ''w2'', note_userId = ''alice'', note_title = ''Release'',
     note_content = ''Ship on Friday'', note_tags = [''work'', ''urgent'', ''extra''],
     note_createdAt = 3, note_updatedAt = 3\<rparr>"

definition note_bob :: Note where
  "note_bob = \<lparr>note_id = ''w3'', note_userId = ''bob'', note_title = ''Release'',
     note_content = ''Ship on Monday'', note_tags = [''work'', ''urgent''],
     note_createdAt = 4, note_updatedAt = 4\<rparr>"

definition s_tags :: state where
  "s_tags = \<lparr>db = [note_work, note_wue, note_bob], cache = Map.empty, store_writable = True,
     store_tie = (\<lambda>skip tk n. 0)\<rparr>"

definition q_work_urgent :: QueryNotesDto where
  "q_work_urgent = \<lparr>q_search = None, q_tags = Some [''work'', ''urgent''],
     q_page = None, q_limit = None\<rparr>"

definition q_report :: QueryNotesDto where
  "q_report = \<lparr>q_search = Some ''REPORT'', q_tags = None, q_page = None, q_limit = None\<rparr>"

definition q_percent :: QueryNotesDto where
  "q_percent = \<lparr>q_search = Some ''%'', q_tags = None, q_page = None, q_limit = None\<rparr>"

definition q_tags_a :: QueryNotesDto where
  "q_tags_a = \<lparr>q_search = None, q_tags = Some [''work'', ''urgent'', ''work''],
     q_page = Some 2, q_limit = Some 5\<rparr>"

lemmas ex_defs = s_alice_def alice_note_def q_all_def page_alice_def s_cached_def body2_def
  retitle_def

section \<open>Lookup by id\<close>

text \<open>
  The id is the primary key: in a well-formed table the ids are distinct.
\<close>

lemma findUnique_None: "prisma_note_findUnique d i = None \<longleftrightarrow> i \<notin> note_id ` set d"
  by (auto simp: prisma_note_findUnique_def find_None_iff)

lemma findUnique_Some_mem:
  "prisma_note_findUnique d i = Some n \<Longrightarrow> n \<in> set d \<and> note_id n = i"
  by (auto simp: prisma_note_findUnique_def find_Some_iff)

lemma findUnique_distinct:
  "distinct (map note_id d) \<Longrightarrow> n \<in> set d \<Longrightarrow> prisma_note_findUnique d (note_id n) = Some n"
proof (induction d)
  case Nil
  then show ?case by simp
next
  case (Cons m d)
  then show ?case
    by (auto simp: prisma_note_findUnique_def)
qed

text \<open>
  C8. In a table with distinct ids: an id that no row has gives \<open>NotFound\<close>; the id of
  a row gives that row to its owner and \<open>Forbidden\<close>, a different error, to any other
  user. \<open>update\<close> and \<open>remove\<close> start with the same check: whatever error \<open>findOne\<close>
  gives, they give it too and leave the state as it was.
\<close>

theorem findOne_access:
  assumes "distinct (map note_id (db s))"
  shows "(i \<notin> note_id ` set (db s) \<longrightarrow> findOne i u s = Inl NotFound)
    \<and> (\<forall>n \<in> set (db s). note_id n = i \<longrightarrow>
          findOne i u s = (if note_userId n = u then Inr n else Inl Forbidden))
    \<and> (\<forall>e. findOne i u s = Inl e \<longrightarrow>
          update i u dto now s = (Inl e, s) \<and> remove i u s = (Inl e, s))
    \<and> NotFound \<noteq> Forbidden"
proof -
  have a: "i \<notin> note_id ` set (db s) \<longrightarrow> findOne i u s = Inl NotFound"
    using findUnique_None[of "db s" i] by (auto simp: findOne_def)
  have b: "\<forall>n \<in> set (db s). note_id n = i \<longrightarrow>
          findOne i u s = (if note_userId n = u then Inr n else Inl Forbidden)"
    using assms findUnique_distinct[of "db s"] by (auto simp: findOne_def)
  have c: "\<forall>e. findOne i u s = Inl e \<longrightarrow>
          update i u dto now s = (Inl e, s) \<and> remove i u s = (Inl e, s)"
    by (simp add: update_def remove_def)
  show ?thesis using a b c by simp
qed

text \<open>
  The three outcomes on the state that holds alice's note \<open>n1\<close>: bob asks for the
  unknown \<open>n2\<close>, bob asks for \<open>n1\<close>, alice asks for \<open>n1\<close>; and bob's update and
  delete stop at the check.
\<close>

theorem findOne_access_witness:
  "distinct (map note_id (db s_alice))
   \<and> findOne ''n2'' ''bob'' s_alice = Inl NotFound
   \<and> findOne ''n1'' ''bob'' s_alice = Inl Forbidden
   \<and> findOne ''n1'' ''alice'' s_alice = Inr alice_note
   \<and> update ''n1'' ''bob'' retitle 7 s_alice = (Inl Forbidden, s_alice)
   \<and> remove ''n2'' ''bob'' s_alice = (Inl NotFound, s_alice)"
proof -
  have d: "distinct (map note_id (db s_alice))"
    by (simp add: s_alice_def)
  have m: "alice_note \<in> set (db s_alice)"
    by (simp add: s_alice_def)
  have nf: "findOne ''n2'' ''bob'' s_alice = Inl NotFound"
    using findOne_access[OF d, of "''n2''" "''bob''"]
    by (simp add: s_alice_def alice_note_def)
  have fb: "findOne ''n1'' ''bob'' s_alice = Inl Forbidden"
    using findOne_access[OF d, of "''n1''" "''bob''"] m
    by (auto simp: alice_note_def)
  have ok: "findOne ''n1'' ''alice'' s_alice = Inr alice_note"
    using findOne_access[OF d, of "''n1''" "''alice''"] m
    by (auto simp: alice_note_def)
  have up: "update ''n1'' ''bob'' retitle 7 s_alice = (Inl Forbidden, s_alice)"
    using findOne_access[OF d, of "''n1''" "''bob''" retitle 7] fb by simp
  have rm: "remove ''n2'' ''bob'' s_alice = (Inl NotFound, s_alice)"
    using findOne_access[OF d, of "''n2''" "''bob''" retitle 7] nf by simp
  show ?thesis using d nf fb ok up rm by simp
qed

section \<open>Update\<close>

lemma update_owned:
  assumes d: "distinct (map note_id (db s))" and m: "n \<in> set (db s)"
    and i: "note_id n = i" and u: "note_userId n = u" and w: "store_writable s"
  shows "update i u dto now s =
     (Inr (apply_update dto now n),
      s\<lparr>db := map (\<lambda>m. if note_id m = i then apply_update dto now m else m) (db s),
        cache := invalidateUserNotesCache (cache s) u\<rparr>)"
proof -
  have f: "prisma_note_findUnique (db s) i = Some n"
    using findUnique_distinct[OF d m] i by simp
  show ?thesis
    using f u w by (simp add: update_def findOne_def prisma_note_update_def)
qed

lemma update_refused:
  assumes "findOne i u s = Inr n" and "\<not> store_writable s"
  shows "update i u dto now s = (Inl StoreError, s)"
  using assms by (simp add: update_def prisma_note_update_def)

lemma remove_refused:
  assumes "findOne i u s = Inr n" and "\<not> store_writable s"
  shows "remove i u s = (Inl StoreError, s)"
  using assms by (simp add: remove_def prisma_note_delete_def)

lemma findOne_owned:
  assumes d: "distinct (map note_id (db s))" and m: "n \<in> set (db s)"
    and i: "note_id n = i" and u: "note_userId n = u"
  shows "findOne i u s = Inr n"
  using findUnique_distinct[OF d m] i u by (simp add: findOne_def)

text \<open>
  C10. An update of a note \<open>n\<close> that the user owns, when the store carries the write out,
  succeeds with a note \<open>n'\<close> that has the id, the owner and the creation time of \<open>n\<close>; its
  title, content and tags are those of the payload where the payload has them and those
  of \<open>n\<close> where it omits them. In the table \<open>n'\<close> stands where \<open>n\<close> stood and every other
  row is as before. When the store refuses the write, the update fails and nothing at all
  has changed.
\<close>

theorem update_frame:
  assumes d: "distinct (map note_id (db s))" and m: "n \<in> set (db s)"
    and i: "note_id n = i" and u: "note_userId n = u"
  shows "(store_writable s \<longrightarrow>
      (\<exists>n' s'. update i u dto now s = (Inr n', s')
        \<and> note_id n' = note_id n \<and> note_userId n' = note_userId n
        \<and> note_createdAt n' = note_createdAt n
        \<and> note_title n' = (case un_title dto of None \<Rightarrow> note_title n | Some t \<Rightarrow> t)
        \<and> note_content n' = (case un_content dto of None \<Rightarrow> note_content n | Some c \<Rightarrow> c)
        \<and> note_tags n' = (case un_tags dto of None \<Rightarrow> note_tags n | Some ts \<Rightarrow> ts)
        \<and> note_updatedAt n' = now
        \<and> db s' = map (\<lambda>m. if m = n then n' else m) (db s)))
    \<and> (\<not> store_writable s \<longrightarrow> update i u dto now s = (Inl StoreError, s))"
proof (intro conjI impI)
  assume w: "store_writable s"
  let ?n' = "apply_update dto now n"
  have eq: "map (\<lambda>m. if note_id m = i then apply_update dto now m else m) (db s)
          = map (\<lambda>m. if m = n then ?n' else m) (db s)"
  proof (rule map_cong[OF refl])
    fix x assume x: "x \<in> set (db s)"
    have "note_id x = i \<longleftrightarrow> x = n"
      using d m x i by (auto simp: distinct_map inj_on_def)
    then show "(if note_id x = i then apply_update dto now x else x) = (if x = n then ?n' else x)"
      by auto
  qed
  show "\<exists>n' s'. update i u dto now s = (Inr n', s')
        \<and> note_id n' = note_id n \<and> note_userId n' = note_userId n
        \<and> note_createdAt n' = note_createdAt n
        \<and> note_title n' = (case un_title dto of None \<Rightarrow> note_title n | Some t \<Rightarrow> t)
        \<and> note_content n' = (case un_content dto of None \<Rightarrow> note_content n | Some c \<Rightarrow> c)
        \<and> note_tags n' = (case un_tags dto of None \<Rightarrow> note_tags n | Some ts \<Rightarrow> ts)
        \<and> note_updatedAt n' = now
        \<and> db s' = map (\<lambda>m. if m = n then n' else m) (db s)"
    unfolding update_owned[OF d m i u w] eq
    by (simp add: apply_update_def)
next
  assume "\<not> store_writable s"
  with findOne_owned[OF d m i u] show "update i u dto now s = (Inl StoreError, s)"
    by (rule update_refused)
qed

text \<open>
  Alice retitles her note: the title is the new one, content and tags are the old ones.
  With a store that refuses the write, the same update fails and the state is as it was.
\<close>

theorem update_frame_witness:
  "(\<exists>n' s'. update ''n1'' ''alice'' retitle 7 s_alice = (Inr n', s')
     \<and> note_id n' = ''n1'' \<and> note_userId n' = ''alice'' \<and> note_createdAt n' = 1
     \<and> note_title n' = ''Plan B'' \<and> note_content n' = ''Buy milk'' \<and> note_tags n' = [''home'']
     \<and> note_updatedAt n' = 7 \<and> db s' = [n'])
   \<and> update ''n1'' ''alice'' retitle 7 (s_alice\<lparr>store_writable := False\<rparr>)
       = (Inl StoreError, s_alice\<lparr>store_writable := False\<rparr>)"
proof -
  have d: "distinct (map note_id (db s_alice))"
    and d': "distinct (map note_id (db (s_alice\<lparr>store_writable := False\<rparr>)))"
    by (simp_all add: s_alice_def)
  have m: "alice_note \<in> set (db s_alice)"
    and m': "alice_note \<in> set (db (s_alice\<lparr>store_writable := False\<rparr>))"
    by (simp_all add: s_alice_def)
  have i: "note_id alice_note = ''n1''" and u: "note_userId alice_note = ''alice''"
    by (simp_all add: alice_note_def)
  have w: "store_writable s_alice" by (simp add: s_alice_def)
  have A: "\<exists>n' s'. update ''n1'' ''alice'' retitle 7 s_alice = (Inr n', s')
     \<and> note_id n' = ''n1'' \<and> note_userId n' = ''alice'' \<and> note_createdAt n' = 1
     \<and> note_title n' = ''Plan B'' \<and> note_content n' = ''Buy milk'' \<and> note_tags n' = [''home'']
     \<and> note_updatedAt n' = 7 \<and> db s' = [n']"
    using update_frame[OF d m i u, of retitle 7] w
    by (auto simp: retitle_def alice_note_def s_alice_def)
  have B: "update ''n1'' ''alice'' retitle 7 (s_alice\<lparr>store_writable := False\<rparr>)
       = (Inl StoreError, s_alice\<lparr>store_writable := False\<rparr>)"
    using update_frame[OF d' m' i u, of retitle 7] by simp
  from A B show ?thesis by simp
qed

section \<open>Cache hits, misses and invalidation\<close>

lemma findAll_hit:
  "cache_get (cache s) (key_of u q) = Some r \<Longrightarrow> findAll u q s = (Inr r, s)"
  by (simp add: findAll_def)

lemma findAll_miss:
  "cache_get (cache s) (key_of u q) = None \<Longrightarrow>
   findAll u q s =
     (case fresh_of s u q of
        Inl e \<Rightarrow> (Inl e, s)
      | Inr r \<Rightarrow> (Inr r, s\<lparr>cache := cache_set (cache s) (key_of u q) r 300\<rparr>))"
  by (simp add: findAll_def Let_def)

lemma findAll_miss_fst:
  "cache_get (cache s) (key_of u q) = None \<Longrightarrow> fst (findAll u q s) = fresh_of s u q"
  by (simp add: findAll_miss split: sum.splits)

lemma cache_get_set: "cache_get (cache_set c k v ttl) k = Some v"
  by (simp add: cache_get_def cache_set_def)

lemma key_user_generate [simp]: "key_user (generateNotesSearchKey u t ts p l) = u"
  by (simp add: generateNotesSearchKey_def)

lemma invalidated_user:
  "key_user k = u \<Longrightarrow> cache_get (invalidateUserNotesCache c u) k = None"
  by (simp add: cache_get_def invalidateUserNotesCache_def)

lemma invalidated_other:
  "key_user k \<noteq> u \<Longrightarrow> cache_get (invalidateUserNotesCache c u) k = cache_get c k"
  by (simp add: cache_get_def invalidateUserNotesCache_def)

lemma key_all: "key_of ''alice'' q_all = generateNotesSearchKey ''alice'' None None 1 10"
  by (simp add: q_all_def)

lemma cached_hit: "cache_get (cache s_cached) (key_of ''alice'' q_all) = Some page_alice"
  by (simp add: key_all s_cached_def cache_get_def)

text \<open>
  What each mutation returns: an error leaves the state as it was; a success changes the
  table and invalidates the user's cache entries.
\<close>

lemma create_Inl: "create u dto newId now s = (Inl e, s') \<Longrightarrow> s' = s"
  by (auto simp: create_def split: sum.splits prod.splits)

lemma create_Inr:
  "create u dto newId now s = (Inr n, s') \<Longrightarrow>
     cache s' = invalidateUserNotesCache (cache s) u \<and> db s' = db s @ [n]
     \<and> newId \<notin> note_id ` set (db s) \<and> store_writable s"
  by (auto simp: create_def prisma_note_create_def Let_def split: sum.splits prod.splits if_splits)

lemma create_refused:
  "\<not> store_writable s \<Longrightarrow> create u dto newId now s = (Inl StoreError, s)"
  by (simp add: create_def prisma_note_create_def)

lemma update_Inl: "update i u dto now s = (Inl e, s') \<Longrightarrow> s' = s"
  by (auto simp: update_def split: sum.splits prod.splits)

lemma update_Inr:
  "update i u dto now s = (Inr n, s') \<Longrightarrow>
     cache s' = invalidateUserNotesCache (cache s) u
     \<and> db s' = map (\<lambda>m. if note_id m = i then apply_update dto now m else m) (db s)
     \<and> store_writable s"
  by (auto simp: update_def prisma_note_update_def
      split: sum.splits prod.splits option.splits if_splits)

lemma remove_Inl: "remove i u s = (Inl e, s') \<Longrightarrow> s' = s"
  by (auto simp: remove_def split: sum.splits prod.splits)

lemma remove_Inr:
  "remove i u s = (Inr x, s') \<Longrightarrow>
     cache s' = invalidateUserNotesCache (cache s) u
     \<and> db s' = filter (\<lambda>m. note_id m \<noteq> i) (db s)
     \<and> store_writable s"
  by (auto simp: remove_def prisma_note_delete_def
      split: sum.splits prod.splits option.splits if_splits)

text \<open>
  C7. For \<open>create\<close>, \<open>update\<close> and \<open>remove\<close>: when the operation fails, the state it
  returns is the state it was given, so nothing was invalidated and the cache is unchanged.
  That is so in particular when it is the store that fails: a store that refuses the write
  makes \<open>create\<close> fail, and makes \<open>update\<close> and \<open>remove\<close> fail after their access check
  has passed. When the operation succeeds, the store has carried the write out, the table
  is the one the write produced, and the cache is the old cache with the user's entries
  invalidated.
\<close>

theorem mutation_then_invalidation:
  "(\<forall>e s'. create u cdto newId now s = (Inl e, s') \<longrightarrow> s' = s)
 \<and> (\<forall>n s'. create u cdto newId now s = (Inr n, s') \<longrightarrow>
       store_writable s \<and> db s' = db s @ [n]
       \<and> cache s' = invalidateUserNotesCache (cache s) u)
 \<and> (\<forall>e s'. update i u udto now s = (Inl e, s') \<longrightarrow> s' = s)
 \<and> (\<forall>n s'. update i u udto now s = (Inr n, s') \<longrightarrow>
       store_writable s
       \<and> db s' = map (\<lambda>m. if note_id m = i then apply_update udto now m else m) (db s)
       \<and> cache s' = invalidateUserNotesCache (cache s) u)
 \<and> (\<forall>e s'. remove i u s = (Inl e, s') \<longrightarrow> s' = s)
 \<and> (\<forall>x s'. remove i u s = (Inr x, s') \<longrightarrow>
       store_writable s
       \<and> db s' = filter (\<lambda>m. note_id m \<noteq> i) (db s)
       \<and> cache s' = invalidateUserNotesCache (cache s) u)
 \<and> (\<not> store_writable s \<longrightarrow>
       create u cdto newId now s = (Inl StoreError, s)
       \<and> (\<forall>n. findOne i u s = Inr n \<longrightarrow>
             update i u udto now s = (Inl StoreError, s)
             \<and> remove i u s = (Inl StoreError, s)))"
proof (intro conjI allI impI)
  fix e s' assume "create u cdto newId now s = (Inl e, s')"
  then show "s' = s" by (rule create_Inl)
next
  fix n s' assume a: "create u cdto newId now s = (Inr n, s')"
  show "store_writable s" using create_Inr[OF a] by simp
  show "db s' = db s @ [n]" using create_Inr[OF a] by simp
  show "cache s' = invalidateUserNotesCache (cache s) u" using create_Inr[OF a] by simp
next
  fix e s' assume "update i u udto now s = (Inl e, s')"
  then show "s' = s" by (rule update_Inl)
next
  fix n s' assume a: "update i u udto now s = (Inr n, s')"
  show "store_writable s" using update_Inr[OF a] by simp
  show "db s' = map (\<lambda>m. if note_id m = i then apply_update udto now m else m) (db s)"
    using update_Inr[OF a] by simp
  show "cache s' = invalidateUserNotesCache (cache s) u" using update_Inr[OF a] by simp
next
  fix e s' assume "remove i u s = (Inl e, s')"
  then show "s' = s" by (rule remove_Inl)
next
  fix x s' assume a: "remove i u s = (Inr x, s')"
  show "store_writable s" using remove_Inr[OF a] by simp
  show "db s' = filter (\<lambda>m. note_id m \<noteq> i) (db s)" using remove_Inr[OF a] by simp
  show "cache s' = invalidateUserNotesCache (cache s) u" using remove_Inr[OF a] by simp
next
  assume w: "\<not> store_writable s"
  then show "create u cdto newId now s = (Inl StoreError, s)" by (rule create_refused)
  fix n assume f: "findOne i u s = Inr n"
  show "update i u udto now s = (Inl StoreError, s)" using f w by (rule update_refused)
  show "remove i u s = (Inl StoreError, s)" using f w by (rule remove_refused)
qed

text \<open>
  On the state with a cached page for alice: a create with a taken id, an update of an
  unknown id and a delete by another user fail and leave the state, with its cached page,
  untouched; a create with a fresh id, an update and a delete of alice's own note succeed
  and the cached page is gone. On the same state with a store that refuses writes, the
  create, the update and the delete of alice's own note fail at the store, and the cached
  page is still there.
\<close>

theorem mutation_then_invalidation_witness:
  "cache_get (cache s_cached) (key_of ''alice'' q_all) = Some page_alice
   \<and> create ''alice'' body2 ''n1'' 9 s_cached = (Inl StoreError, s_cached)
   \<and> (\<exists>n s'. create ''alice'' body2 ''n2'' 9 s_cached = (Inr n, s')
         \<and> db s' = [alice_note, n]
         \<and> cache_get (cache s') (key_of ''alice'' q_all) = None)
   \<and> update ''n9'' ''alice'' retitle 9 s_cached = (Inl NotFound, s_cached)
   \<and> (\<exists>n s'. update ''n1'' ''alice'' retitle 9 s_cached = (Inr n, s')
         \<and> db s' = [n]
         \<and> cache_get (cache s') (key_of ''alice'' q_all) = None)
   \<and> remove ''n1'' ''bob'' s_cached = (Inl Forbidden, s_cached)
   \<and> (\<exists>s'. remove ''n1'' ''alice'' s_cached = (Inr (), s')
         \<and> db s' = []
         \<and> cache_get (cache s') (key_of ''alice'' q_all) = None)
   \<and> findOne ''n1'' ''alice'' s_refusing = Inr alice_note
   \<and> cache_get (cache s_refusing) (key_of ''alice'' q_all) = Some page_alice
   \<and> create ''alice'' body2 ''n2'' 9 s_refusing = (Inl StoreError, s_refusing)
   \<and> update ''n1'' ''alice'' retitle 9 s_refusing = (Inl StoreError, s_refusing)
   \<and> remove ''n1'' ''alice'' s_refusing = (Inl StoreError, s_refusing)"
proof -
  note mti = mutation_then_invalidation[where s = s_cached and u = "''alice''" and cdto = body2
      and now = 9 and udto = retitle]
  note mtr = mutation_then_invalidation[where s = s_refusing and u = "''alice''" and cdto = body2
      and now = 9 and udto = retitle and i = "''n1''" and newId = "''n2''"]
  have d: "db s_cached = [alice_note]" by (simp add: s_cached_def)
  have inv: "cache_get (invalidateUserNotesCache (cache s_cached) ''alice'') (key_of ''alice'' q_all) = None"
    by (simp add: invalidated_user)
  obtain r1 t1 where c1: "create ''alice'' body2 ''n1'' 9 s_cached = (r1, t1)" by fastforce
  have "r1 = Inl StoreError"
    using c1 by (simp add: create_def prisma_note_create_def ex_defs)
  with c1 have c1': "create ''alice'' body2 ''n1'' 9 s_cached = (Inl StoreError, t1)" by simp
  with mti[where newId = "''n1''"] have "t1 = s_cached" by blast
  with c1' have A: "create ''alice'' body2 ''n1'' 9 s_cached = (Inl StoreError, s_cached)" by simp
  obtain r2 t2 where c2: "create ''alice'' body2 ''n2'' 9 s_cached = (r2, t2)" by fastforce
  then obtain n2 where "r2 = Inr n2"
    by (auto simp: create_def prisma_note_create_def ex_defs Let_def)
  with c2 have c2': "create ''alice'' body2 ''n2'' 9 s_cached = (Inr n2, t2)" by simp
  with mti[where newId = "''n2''"] have
    "db t2 = db s_cached @ [n2] \<and> cache t2 = invalidateUserNotesCache (cache s_cached) ''alice''"
    by blast
  with c2' d inv have B: "\<exists>n s'. create ''alice'' body2 ''n2'' 9 s_cached = (Inr n, s')
         \<and> db s' = [alice_note, n] \<and> cache_get (cache s') (key_of ''alice'' q_all) = None"
    by simp
  obtain r3 t3 where c3: "update ''n9'' ''alice'' retitle 9 s_cached = (r3, t3)" by fastforce
  have "r3 = Inl NotFound"
    using c3 by (simp add: update_def findOne_def prisma_note_findUnique_def ex_defs)
  with c3 have c3': "update ''n9'' ''alice'' retitle 9 s_cached = (Inl NotFound, t3)" by simp
  with mti[where i = "''n9''"] have "t3 = s_cached" by blast
  with c3' have C: "update ''n9'' ''alice'' retitle 9 s_cached = (Inl NotFound, s_cached)" by simp
  obtain r4 t4 where c4: "update ''n1'' ''alice'' retitle 9 s_cached = (r4, t4)" by fastforce
  then obtain n4 where r4: "r4 = Inr n4" "n4 = apply_update retitle 9 alice_note"
    by (auto simp: update_def findOne_def prisma_note_findUnique_def prisma_note_update_def ex_defs)
  with c4 have c4': "update ''n1'' ''alice'' retitle 9 s_cached = (Inr n4, t4)" by simp
  with mti[where i = "''n1''"] have
    "db t4 = map (\<lambda>m. if note_id m = ''n1'' then apply_update retitle 9 m else m) (db s_cached)
     \<and> cache t4 = invalidateUserNotesCache (cache s_cached) ''alice''"
    by blast
  with c4' d inv r4 have D: "\<exists>n s'. update ''n1'' ''alice'' retitle 9 s_cached = (Inr n, s')
         \<and> db s' = [n] \<and> cache_get (cache s') (key_of ''alice'' q_all) = None"
    by (simp add: alice_note_def)
  obtain r5 t5 where c5: "remove ''n1'' ''bob'' s_cached = (r5, t5)" by fastforce
  have "r5 = Inl Forbidden"
    using c5 by (simp add: remove_def findOne_def prisma_note_findUnique_def ex_defs)
  with c5 have c5': "remove ''n1'' ''bob'' s_cached = (Inl Forbidden, t5)" by simp
  with mutation_then_invalidation[where s = s_cached and u = "''bob''" and i = "''n1''"]
  have "t5 = s_cached" by blast
  with c5' have E: "remove ''n1'' ''bob'' s_cached = (Inl Forbidden, s_cached)" by simp
  obtain r6 t6 where c6: "remove ''n1'' ''alice'' s_cached = (r6, t6)" by fastforce
  have "r6 = Inr ()"
    using c6
    by (auto simp: remove_def findOne_def prisma_note_findUnique_def prisma_note_delete_def ex_defs)
  with c6 have c6': "remove ''n1'' ''alice'' s_cached = (Inr (), t6)" by simp
  with mti[where i = "''n1''"] have
    "db t6 = filter (\<lambda>m. note_id m \<noteq> ''n1'') (db s_cached)
     \<and> cache t6 = invalidateUserNotesCache (cache s_cached) ''alice''"
    by blast
  with c6' d inv have F: "\<exists>s'. remove ''n1'' ''alice'' s_cached = (Inr (), s')
         \<and> db s' = [] \<and> cache_get (cache s') (key_of ''alice'' q_all) = None"
    by (simp add: alice_note_def)
  have w: "\<not> store_writable s_refusing" by (simp add: s_refusing_def)
  have G: "findOne ''n1'' ''alice'' s_refusing = Inr alice_note"
    by (simp add: findOne_def prisma_note_findUnique_def s_refusing_def ex_defs)
  have H: "cache_get (cache s_refusing) (key_of ''alice'' q_all) = Some page_alice"
    using cached_hit by (simp add: s_refusing_def)
  from mtr w G have I: "create ''alice'' body2 ''n2'' 9 s_refusing = (Inl StoreError, s_refusing)"
    and J: "update ''n1'' ''alice'' retitle 9 s_refusing = (Inl StoreError, s_refusing)"
    and K: "remove ''n1'' ''alice'' s_refusing = (Inl StoreError, s_refusing)"
    by blast+
  from cached_hit A B C D E F G H I J K show ?thesis by blast
qed

lemma fresh_after_invalidation:
  assumes "cache s' = invalidateUserNotesCache c u"
  shows "(\<forall>k. key_user k = u \<longrightarrow> cache_get (cache s') k = None)
       \<and> fst (findAll u q s') = fresh_of s' u q"
proof -
  have none: "\<forall>k. key_user k = u \<longrightarrow> cache_get (cache s') k = None"
    using assms by (simp add: invalidated_user)
  then have "cache_get (cache s') (key_of u q) = None" by simp
  then have "fst (findAll u q s') = fresh_of s' u q"
    by (simp add: findAll_miss split: sum.splits)
  with none show ?thesis by simp
qed

text \<open>
  C1. After a successful \<open>create\<close>, \<open>update\<close> or \<open>remove\<close> by user \<open>u\<close>, no key of
  \<open>u\<close> has a cache entry, whatever the cache held before, and a search of \<open>u\<close> for any
  query returns what the store, as the mutation left it, gives for that query.
\<close>

theorem search_after_mutation_fresh:
  assumes "(\<exists>cdto newId now n. create u cdto newId now s = (Inr n, s'))
         \<or> (\<exists>i udto now n. update i u udto now s = (Inr n, s'))
         \<or> (\<exists>i. remove i u s = (Inr (), s'))"
  shows "(\<forall>k. key_user k = u \<longrightarrow> cache_get (cache s') k = None)
       \<and> fst (findAll u q s') = fresh_of s' u q"
proof -
  have "cache s' = invalidateUserNotesCache (cache s) u"
    using assms create_Inr update_Inr remove_Inr by blast
  then show ?thesis by (rule fresh_after_invalidation)
qed

text \<open>
  Alice retitles her note while a page with the old title is cached: the next search
  returns the note with the new title, not the cached page.
\<close>

theorem search_after_mutation_fresh_witness:
  "cache_get (cache s_cached) (key_of ''alice'' q_all) = Some page_alice
   \<and> (\<exists>n s'. update ''n1'' ''alice'' retitle 9 s_cached = (Inr n, s')
        \<and> note_title n = ''Plan B''
        \<and> cache_get (cache s') (key_of ''alice'' q_all) = None
        \<and> fst (findAll ''alice'' q_all s')
            = Inr \<lparr>pn_notes = [n], pn_total = 1, pn_page = 1, pn_limit = 10,
                   pn_totalPages = Finite 1\<rparr>
        \<and> fst (findAll ''alice'' q_all s') \<noteq> Inr page_alice)"
proof -
  let ?n = "apply_update retitle 9 alice_note"
  obtain r t where u: "update ''n1'' ''alice'' retitle 9 s_cached = (r, t)" by fastforce
  then have r: "r = Inr ?n"
    by (auto simp: update_def findOne_def prisma_note_findUnique_def prisma_note_update_def ex_defs)
  have dbt: "db t = [?n]"
    using u
    by (auto simp: update_def findOne_def prisma_note_findUnique_def prisma_note_update_def ex_defs)
  from u r have u': "update ''n1'' ''alice'' retitle 9 s_cached = (Inr ?n, t)" by simp
  then have hyp: "(\<exists>cdto newId now n. create ''alice'' cdto newId now s_cached = (Inr n, t))
         \<or> (\<exists>i udto now n. update i ''alice'' udto now s_cached = (Inr n, t))
         \<or> (\<exists>i. remove i ''alice'' s_cached = (Inr (), t))"
    by blast
  have title: "note_title ?n = ''Plan B''"
    by (simp add: apply_update_def retitle_def)
  have fresh: "query_store [?n] (store_tie t) ''alice'' (q_search q_all) (q_tags q_all)
        (page_of q_all) (limit_of q_all)
      = Inr \<lparr>pn_notes = [?n], pn_total = 1, pn_page = 1, pn_limit = 10,
             pn_totalPages = Finite 1\<rparr>"
    by (simp add: ex_defs apply_update_def query_store_def
      build_where_def prisma_note_findMany_def prisma_note_count_def skip_take_def
      orderBy_updatedAt_desc_def note_matches_def math_ceil_div_def Let_def)
  have ne: "?n \<noteq> alice_note"
    by (simp add: apply_update_def retitle_def alice_note_def)
  from search_after_mutation_fresh[OF hyp, of q_all]
  have none: "cache_get (cache t) (key_of ''alice'' q_all) = None"
    and res: "fst (findAll ''alice'' q_all t) = fresh_of t ''alice'' q_all"
    by simp_all
  from res have res': "fst (findAll ''alice'' q_all t)
      = Inr \<lparr>pn_notes = [?n], pn_total = 1, pn_page = 1, pn_limit = 10,
             pn_totalPages = Finite 1\<rparr>"
    unfolding dbt fresh .
  have diff: "fst (findAll ''alice'' q_all t) \<noteq> Inr page_alice"
    unfolding res' using ne by (simp add: page_alice_def)
  from u' title none res' diff cached_hit show ?thesis by blast
qed

text \<open>
  C2. Two searches in succession with the same arguments return the same result, and the
  second leaves the state as the first left it. When the result is a page, the cache holds
  it under the query's key after the first call, and the second call returns it whatever
  the table contains: the store is not asked again.
\<close>

theorem repeated_search_identical:
  assumes "findAll u q s = (r1, s1)" and "findAll u q s1 = (r2, s2)"
  shows "r2 = r1 \<and> s2 = s1
       \<and> (\<forall>r. r1 = Inr r \<longrightarrow>
             cache_get (cache s1) (key_of u q) = Some r
             \<and> (\<forall>d. findAll u q (s1\<lparr>db := d\<rparr>) = (Inr r, s1\<lparr>db := d\<rparr>)))"
proof (cases "cache_get (cache s) (key_of u q)")
  case (Some r)
  then have 1: "r1 = Inr r" "s1 = s"
    using assms(1) by (simp_all add: findAll_hit)
  then have 2: "r2 = Inr r" "s2 = s"
    using assms(2) Some by (simp_all add: findAll_hit)
  have "\<forall>d. findAll u q (s\<lparr>db := d\<rparr>) = (Inr r, s\<lparr>db := d\<rparr>)"
    using Some by (simp add: findAll_hit)
  then show ?thesis using 1 2 Some by simp
next
  case None
  show ?thesis
  proof (cases "fresh_of s u q")
    case (Inl e)
    then have 1: "r1 = Inl e" "s1 = s"
      using assms(1) None by (simp_all add: findAll_miss)
    then have "r2 = Inl e" "s2 = s"
      using assms(2) None Inl by (simp_all add: findAll_miss)
    then show ?thesis using 1 by simp
  next
    case (Inr r)
    then have 1: "r1 = Inr r" "s1 = s\<lparr>cache := cache_set (cache s) (key_of u q) r 300\<rparr>"
      using assms(1) None by (simp_all add: findAll_miss)
    then have hit: "cache_get (cache s1) (key_of u q) = Some r"
      by (simp add: cache_get_set)
    then have 2: "r2 = Inr r" "s2 = s1"
      using assms(2) by (simp_all add: findAll_hit)
    have "\<forall>d. findAll u q (s1\<lparr>db := d\<rparr>) = (Inr r, s1\<lparr>db := d\<rparr>)"
      using hit by (simp add: findAll_hit)
    then show ?thesis using 1 2 hit by simp
  qed
qed

text \<open>
  The first search on \<open>s_alice\<close> misses and stores its page; the second returns that
  page, also when the table has been emptied behind the cache.
\<close>

theorem repeated_search_identical_witness:
  "findAll ''alice'' q_all s_alice = (Inr page_alice, s_cached)
   \<and> findAll ''alice'' q_all s_cached = (Inr page_alice, s_cached)
   \<and> cache_get (cache s_cached) (key_of ''alice'' q_all) = Some page_alice
   \<and> findAll ''alice'' q_all (s_cached\<lparr>db := []\<rparr>) = (Inr page_alice, s_cached\<lparr>db := []\<rparr>)"
proof -
  have 1: "findAll ''alice'' q_all s_alice = (Inr page_alice, s_cached)"
    by (simp add: findAll_def ex_defs cache_get_def cache_set_def query_store_def
      build_where_def prisma_note_findMany_def prisma_note_count_def skip_take_def
      orderBy_updatedAt_desc_def note_matches_def math_ceil_div_def Let_def)
  have 2: "findAll ''alice'' q_all s_cached = (Inr page_alice, s_cached)"
    using cached_hit by (rule findAll_hit)
  show ?thesis
    using repeated_search_identical[OF 1 2] 1 2 by simp
qed

section \<open>A search that misses the cache\<close>

text \<open>The store's order is a rearrangement of the rows in descending \<^verbatim>\<open>updatedAt\<close>.\<close>

lemma mset_orderBy: "mset (orderBy_updatedAt_desc rank ns) = mset ns"
  by (simp add: orderBy_updatedAt_desc_def)


lemma set_orderBy: "set (orderBy_updatedAt_desc rank ns) = set ns"
  by (simp add: orderBy_updatedAt_desc_def)

lemma ordered_desc: "updatedAt_desc (orderBy_updatedAt_desc rank ns)"
proof -
  have "sorted (map (\<lambda>n. - note_updatedAt n) (orderBy_updatedAt_desc rank ns))"
    unfolding orderBy_updatedAt_desc_def by (rule sorted_sort_key)
  then show ?thesis by (simp add: sorted_map)
qed

text \<open>What the \<^verbatim>\<open>where\<close> object selects, written out.\<close>

lemma like_match_percent [simp]: "like_match [CHR ''%''] s"
  by (induction s) simp_all

lemma contains_insensitive_Nil [simp]: "contains_insensitive s []"
proof -
  have "like_match (CHR ''%'' # [CHR ''%'']) xs" for xs
    by (cases xs) simp_all
  then show ?thesis by (simp add: contains_insensitive_def to_lower_def)
qed

lemma hasEvery_subset: "hasEvery nts ts \<longleftrightarrow> set ts \<subseteq> set nts"
  by (auto simp: hasEvery_def list_all_iff)

lemma note_matches_iff:
  "note_matches (build_where u search tags) n \<longleftrightarrow>
     note_userId n = u
     \<and> (case search of None \<Rightarrow> True
         | Some t \<Rightarrow> contains_insensitive (note_title n) t \<or> contains_insensitive (note_content n) t)
     \<and> (case tags of None \<Rightarrow> True | Some ts \<Rightarrow> set ts \<subseteq> set (note_tags n))"
  by (auto simp: note_matches_def build_where_def hasEvery_subset split: option.splits)

lemma matching_selected:
  "filter (note_matches (build_where u (q_search q) (q_tags q))) d = filter (selected_by u q) d"
  by (rule filter_cong) (simp_all add: note_matches_iff)

lemma query_store_valid:
  assumes "1 \<le> page" and "1 \<le> limit"
  shows "query_store d tie u search tags page limit =
     Inr \<lparr>pn_notes = take (nat limit) (drop (nat ((page - 1) * limit))
              (orderBy_updatedAt_desc (tie ((page - 1) * limit) limit)
                 (filter (note_matches (build_where u search tags)) d))),
          pn_total = int (length (filter (note_matches (build_where u search tags)) d)),
          pn_page = page, pn_limit = limit,
          pn_totalPages =
            Finite (- ((- int (length (filter (note_matches (build_where u search tags)) d))) div limit))\<rparr>"
proof -
  have "0 \<le> (page - 1) * limit" using assms by (intro mult_nonneg_nonneg) simp_all
  then have "\<not> (page - 1) * limit < 0" by (simp only: not_less)
  then show ?thesis
    using assms
    by (simp add: query_store_def prisma_note_findMany_def prisma_note_count_def skip_take_def
        math_ceil_div_def Let_def)
qed

lemma findAll_miss_valid:
  assumes miss: "cache_get (cache s) (key_of u q) = None"
    and p: "1 \<le> page_of q" and l: "1 \<le> limit_of q"
  shows "fst (findAll u q s) =
     Inr \<lparr>pn_notes = take (nat (limit_of q)) (drop (nat ((page_of q - 1) * limit_of q))
              (arranged_of s u q)),
          pn_total = int (length (filter (selected_by u q) (db s))),
          pn_page = page_of q, pn_limit = limit_of q,
          pn_totalPages =
            Finite (- ((- int (length (filter (selected_by u q) (db s)))) div limit_of q))\<rparr>"
  by (simp add: findAll_miss[OF miss] query_store_valid[OF p l] matching_selected)




section \<open>The order of the result\<close>

text \<open>
  When no two notes of a list have the same \<^verbatim>\<open>updatedAt\<close>, there is one way only to put
  them in descending order.
\<close>

lemma desc_unique:
  assumes perm: "mset xs = mset ys"
    and xs: "updatedAt_desc xs" and ys: "updatedAt_desc ys"
    and dist: "distinct (map note_updatedAt xs)"
  shows "xs = ys"
proof -
  let ?f = "\<lambda>n. - note_updatedAt n"
  have inj: "inj_on ?f (set xs)"
    using dist by (auto simp: distinct_map inj_on_def)
  have dx: "distinct (map ?f xs)"
    using dist inj by (simp add: distinct_map)
  have pm: "mset (map ?f xs) = mset (map ?f ys)"
    using perm by simp
  have dy: "distinct (map ?f ys)"
    using dx mset_eq_imp_distinct_iff[OF pm] by simp
  have st: "set (map ?f xs) = set (map ?f ys)"
    using pm by (rule mset_eq_setD)
  have sx: "sorted (map ?f xs)" and sy: "sorted (map ?f ys)"
    using xs ys by (simp_all add: sorted_map)
  have eq: "map ?f xs = map ?f ys"
    using sx dx sy dy st by (rule sorted_distinct_set_unique)
  have "set ys = set xs"
    using perm by (metis mset_eq_setD)
  then have "inj_on ?f (set xs \<union> set ys)"
    using inj by simp
  then show ?thesis
    using eq by (simp add: inj_on_map_eq_map)
qed

text \<open>
  C5, as stated, fails: the query asks for \<^verbatim>\<open>updatedAt\<close> descending and for nothing
  else. The table holds \<open>note_a\<close> and \<open>note_b\<close>, both with \<^verbatim>\<open>updatedAt\<close> 5; the store
  ranks \<open>note_b\<close> first, and the search returns \<open>note_b\<close> before \<open>note_a\<close> although
  \<open>''a''\<close> is the smaller id.
\<close>

theorem search_order_counterexample:
  "cache_get (cache s_tie) (key_of ''alice'' q_all) = None
   \<and> fst (findAll ''alice'' q_all s_tie)
       = Inr \<lparr>pn_notes = [note_b, note_a], pn_total = 2, pn_page = 1, pn_limit = 10,
              pn_totalPages = Finite 1\<rparr>
   \<and> note_updatedAt note_b = note_updatedAt note_a
   \<and> \<not> note_id note_b \<le> note_id note_a
   \<and> \<not> sorted_wrt spec_order [note_b, note_a]"
  by code_simp

text \<open>
  C5, amended. On a cache miss (page and limit at least 1) the notes returned are in
  descending order of \<^verbatim>\<open>updatedAt\<close>. Nothing is said of notes with equal \<^verbatim>\<open>updatedAt\<close>.
  When no two selected notes have the same \<^verbatim>\<open>updatedAt\<close>, the result is settled by the
  selected notes alone: it is the page of any list that holds them in descending order.
\<close>

theorem search_order:
  assumes miss: "cache_get (cache s) (key_of u q) = None"
    and p: "1 \<le> page_of q" and l: "1 \<le> limit_of q"
  shows "\<exists>r. fst (findAll u q s) = Inr r
    \<and> updatedAt_desc (pn_notes r)
    \<and> (distinct (map note_updatedAt (filter (selected_by u q) (db s))) \<longrightarrow>
         (\<forall>ordered. mset ordered = mset (filter (selected_by u q) (db s))
                \<and> updatedAt_desc ordered \<longrightarrow>
              pn_notes r = take (nat (limit_of q))
                             (drop (nat ((page_of q - 1) * limit_of q)) ordered)))"
proof -
  let ?m = "filter (selected_by u q) (db s)"
  let ?o = "arranged_of s u q"
  let ?pg = "take (nat (limit_of q)) (drop (nat ((page_of q - 1) * limit_of q)) ?o)"
  let ?r = "\<lparr>pn_notes = ?pg, pn_total = int (length ?m),
          pn_page = page_of q, pn_limit = limit_of q,
          pn_totalPages = Finite (- ((- int (length ?m)) div limit_of q))\<rparr>"
  have r: "fst (findAll u q s) = Inr ?r"
    by (rule findAll_miss_valid[OF miss p l])
  have srt: "updatedAt_desc ?pg"
    by (intro sorted_wrt_take sorted_wrt_drop ordered_desc)
  have det: "?pg = take (nat (limit_of q)) (drop (nat ((page_of q - 1) * limit_of q)) ordered)"
    if d: "distinct (map note_updatedAt ?m)"
      and o: "mset ordered = mset ?m" "updatedAt_desc ordered" for ordered
  proof -
    have "mset (map note_updatedAt ordered) = mset (map note_updatedAt ?m)"
      using o(1) by simp
    then have "distinct (map note_updatedAt ordered)"
      using d mset_eq_imp_distinct_iff by blast
    moreover have "mset ordered = mset ?o"
      using o(1) by (simp add: mset_orderBy)
    ultimately have "ordered = ?o"
      using o(2) ordered_desc by (intro desc_unique)
    then show ?thesis by simp
  qed
  show ?thesis
    apply (rule exI[of _ ?r])
    using r srt det by simp
qed

text \<open>
  The table \<open>[note_a, note_c, note_b]\<close>: the most recent \<open>note_c\<close> comes first. The two
  notes of alice in \<open>s_tags\<close> have different times: the result is the one descending
  list of them.
\<close>

theorem search_order_witness:
  "(\<exists>r. fst (findAll ''alice'' q_all s_order) = Inr r
      \<and> pn_notes r = [note_c, note_b, note_a]
      \<and> updatedAt_desc (pn_notes r))
   \<and> distinct (map note_updatedAt (filter (selected_by ''alice'' q_all) (db s_tags)))
   \<and> mset [note_wue, note_work] = mset (filter (selected_by ''alice'' q_all) (db s_tags))
   \<and> updatedAt_desc [note_wue, note_work]
   \<and> (\<exists>r. fst (findAll ''alice'' q_all s_tags) = Inr r
      \<and> pn_notes r = [note_wue, note_work])"
proof -
  have p: "1 \<le> page_of q_all" and l: "1 \<le> limit_of q_all"
    by (simp_all add: q_all_def)
  have pl: "page_of q_all = 1" "limit_of q_all = 10"
    by (simp_all add: q_all_def)
  have miss: "cache_get (cache s_order) (key_of ''alice'' q_all) = None"
    by (simp add: s_order_def cache_get_def)
  have ev: "fst (findAll ''alice'' q_all s_order)
      = Inr \<lparr>pn_notes = [note_c, note_b, note_a], pn_total = 3, pn_page = 1, pn_limit = 10,
             pn_totalPages = Finite 1\<rparr>"
    by code_simp
  from search_order[OF miss p l] obtain r where
    r: "fst (findAll ''alice'' q_all s_order) = Inr r" "updatedAt_desc (pn_notes r)"
    by blast
  from r(1) ev have "r = \<lparr>pn_notes = [note_c, note_b, note_a], pn_total = 3, pn_page = 1,
      pn_limit = 10, pn_totalPages = Finite 1\<rparr>"
    by simp
  then have "pn_notes r = [note_c, note_b, note_a]" by simp
  with r have A: "\<exists>r. fst (findAll ''alice'' q_all s_order) = Inr r
      \<and> pn_notes r = [note_c, note_b, note_a] \<and> updatedAt_desc (pn_notes r)"
    by blast
  have sel: "filter (selected_by ''alice'' q_all) (db s_tags) = [note_work, note_wue]"
    by (simp add: q_all_def s_tags_def note_work_def note_wue_def note_bob_def)
  have B: "distinct (map note_updatedAt (filter (selected_by ''alice'' q_all) (db s_tags)))"
    unfolding sel by (simp add: note_work_def note_wue_def)
  have C: "mset [note_wue, note_work] = mset (filter (selected_by ''alice'' q_all) (db s_tags))"
    unfolding sel by simp
  have D: "updatedAt_desc [note_wue, note_work]"
    by (simp add: note_work_def note_wue_def)
  have miss': "cache_get (cache s_tags) (key_of ''alice'' q_all) = None"
    by (simp add: s_tags_def cache_get_def)
  from search_order[OF miss' p l] obtain r' where
    r': "fst (findAll ''alice'' q_all s_tags) = Inr r'"
      "distinct (map note_updatedAt (filter (selected_by ''alice'' q_all) (db s_tags))) \<longrightarrow>
         (\<forall>ordered. mset ordered = mset (filter (selected_by ''alice'' q_all) (db s_tags))
                \<and> updatedAt_desc ordered \<longrightarrow>
              pn_notes r' = take (nat (limit_of q_all))
                             (drop (nat ((page_of q_all - 1) * limit_of q_all)) ordered))"
    by blast
  from r'(2) B C D have "pn_notes r' = take (nat (limit_of q_all))
       (drop (nat ((page_of q_all - 1) * limit_of q_all)) [note_wue, note_work])"
    by blast
  then have "pn_notes r' = [note_wue, note_work]"
    unfolding pl by simp
  with r'(1) have E: "\<exists>r. fst (findAll ''alice'' q_all s_tags) = Inr r
      \<and> pn_notes r = [note_wue, note_work]"
    by blast
  from A B C D E show ?thesis by blast
qed

section \<open>Which notes a search selects\<close>

text \<open>
  Lower-case and upper-case letters: two characters have the same lower-case form exactly
  when they have the same upper-case form, and no character becomes a percent sign, an
  underscore or a backslash in lower case unless it is one.
\<close>

lemma of_char_to_lower:
  "(of_char (to_lower c) :: nat)
     = (if 65 \<le> (of_char c :: nat) \<and> (of_char c :: nat) \<le> 90 then of_char c + 32 else of_char c)"
proof -
  have "(of_char c :: nat) \<le> 90 \<Longrightarrow> (of_char c + 32) mod 256 = (of_char c + 32 :: nat)"
    by simp
  then show ?thesis
    by (simp add: to_lower_def less_eq_char_def)
qed

lemma of_char_to_upper:
  "(of_char (to_upper c) :: nat)
     = (if 97 \<le> (of_char c :: nat) \<and> (of_char c :: nat) \<le> 122 then of_char c - 32 else of_char c)"
proof -
  have "(of_char c - 32) mod 256 = (of_char c - 32 :: nat)"
    using nat_of_char_less_256[of c] by (intro mod_less) arith
  then show ?thesis
    by (simp add: to_upper_def less_eq_char_def)
qed

lemma fold_codes:
  fixes n m :: nat
  shows "(if 65 \<le> n \<and> n \<le> 90 then n + 32 else n) = (if 65 \<le> m \<and> m \<le> 90 then m + 32 else m)
     \<longleftrightarrow> (if 97 \<le> n \<and> n \<le> 122 then n - 32 else n)
          = (if 97 \<le> m \<and> m \<le> 122 then m - 32 else m)"
  by (auto split: if_splits)

lemma same_letter: "to_lower c = to_lower d \<longleftrightarrow> to_upper c = to_upper d"
proof -
  have l: "to_lower c = to_lower d \<longleftrightarrow> (of_char (to_lower c) :: nat) = of_char (to_lower d)"
    by simp
  have u: "to_upper c = to_upper d \<longleftrightarrow> (of_char (to_upper c) :: nat) = of_char (to_upper d)"
    by simp
  show ?thesis
    unfolding l u of_char_to_lower of_char_to_upper by (rule fold_codes)
qed

lemma to_lower_special:
  "to_lower c = CHR ''%'' \<longleftrightarrow> c = CHR ''%''"
  "to_lower c = CHR ''_'' \<longleftrightarrow> c = CHR ''_''"
  "to_lower c = CHR 0x5C \<longleftrightarrow> c = CHR 0x5C"
proof -
  have e: "x = y \<longleftrightarrow> (of_char x :: nat) = of_char y" for x y :: char
    by simp
  show "to_lower c = CHR ''%'' \<longleftrightarrow> c = CHR ''%''"
    unfolding e[of "to_lower c"] e[of c] of_char_to_lower by auto
  show "to_lower c = CHR ''_'' \<longleftrightarrow> c = CHR ''_''"
    unfolding e[of "to_lower c"] e[of c] of_char_to_lower by auto
  show "to_lower c = CHR 0x5C \<longleftrightarrow> c = CHR 0x5C"
    unfolding e[of "to_lower c"] e[of c] of_char_to_lower by auto
qed

lemma literal_to_lower: "literal_term t \<Longrightarrow> literal_term (map to_lower t)"
proof -
  have "c \<in> set t" if "c \<in> to_lower ` set t"
    and "c = CHR ''%'' \<or> c = CHR ''_'' \<or> c = CHR 0x5C" for c
  proof -
    from that(1) obtain x where x: "x \<in> set t" "to_lower x = c" by auto
    from that(2) x(2) have "x = c"
      using to_lower_special[of x] by metis
    with x show ?thesis by simp
  qed
  then show "literal_term t \<Longrightarrow> literal_term (map to_lower t)"
    unfolding literal_term_def set_map by blast
qed

lemma like_literal_char:
  assumes "c \<noteq> CHR ''%''" and "c \<noteq> CHR ''_''" and "c \<noteq> CHR 0x5C"
  shows "like_match (c # ps) s \<longleftrightarrow> (\<exists>cs. s = c # cs \<and> like_match ps cs)"
  using assms by (cases s) auto

lemma like_literal:
  "literal_term t \<Longrightarrow> like_match (t @ ps) s \<longleftrightarrow> (\<exists>s'. s = t @ s' \<and> like_match ps s')"
proof (induction t arbitrary: s)
  case Nil
  then show ?case by simp
next
  case (Cons c t)
  then have c: "c \<noteq> CHR ''%''" "c \<noteq> CHR ''_''" "c \<noteq> CHR 0x5C" and t: "literal_term t"
    by (auto simp: literal_term_def)
  show ?case
    using Cons.IH[OF t] like_literal_char[OF c, of "t @ ps" s] by auto
qed

lemma like_percent:
  "like_match (CHR ''%'' # ps) s \<longleftrightarrow> (\<exists>pre suf. s = pre @ suf \<and> like_match ps suf)"
proof (induction s)
  case Nil
  then show ?case by simp
next
  case (Cons c cs)
  show ?case
  proof
    assume "like_match (CHR ''%'' # ps) (c # cs)"
    then consider "like_match ps (c # cs)" | "like_match (CHR ''%'' # ps) cs"
      by auto
    then show "\<exists>pre suf. c # cs = pre @ suf \<and> like_match ps suf"
    proof cases
      case 1
      then have "c # cs = [] @ (c # cs) \<and> like_match ps (c # cs)" by simp
      then show ?thesis by blast
    next
      case 2
      with Cons.IH obtain pre suf where "cs = pre @ suf" "like_match ps suf" by blast
      then have "c # cs = (c # pre) @ suf \<and> like_match ps suf" by simp
      then show ?thesis by blast
    qed
  next
    assume "\<exists>pre suf. c # cs = pre @ suf \<and> like_match ps suf"
    then obtain pre suf where ps: "c # cs = pre @ suf" "like_match ps suf" by blast
    show "like_match (CHR ''%'' # ps) (c # cs)"
    proof (cases pre)
      case Nil
      with ps have "like_match ps (c # cs)" by simp
      then show ?thesis by simp
    next
      case (Cons a pre')
      with ps have "cs = pre' @ suf" by simp
      with ps(2) Cons.IH have "like_match (CHR ''%'' # ps) cs" by blast
      then show ?thesis by simp
    qed
  qed
qed

lemma like_contains_literal:
  assumes "literal_term t"
  shows "like_match (CHR ''%'' # t @ [CHR ''%'']) s \<longleftrightarrow> sublist t s"
proof -
  have "like_match (CHR ''%'' # t @ [CHR ''%'']) s
      \<longleftrightarrow> (\<exists>pre suf. s = pre @ suf \<and> like_match (t @ [CHR ''%'']) suf)"
    by (rule like_percent)
  also have "\<dots> \<longleftrightarrow> (\<exists>pre suf. s = pre @ suf \<and> (\<exists>s'. suf = t @ s'))"
    by (simp add: like_literal[OF assms])
  also have "\<dots> \<longleftrightarrow> sublist t s"
    by (auto simp: sublist_def)
  finally show ?thesis .
qed

lemma map_eq_same_letter:
  "map to_lower xs = map to_lower ys \<longleftrightarrow> map to_upper xs = map to_upper ys"
proof (induction xs arbitrary: ys)
  case Nil
  then show ?case by simp
next
  case (Cons x xs)
  then show ?case by (cases ys) (simp_all add: same_letter)
qed

lemma sublist_map_iff:
  "sublist (map f t) (map f s) \<longleftrightarrow> (\<exists>pre mid suf. s = pre @ mid @ suf \<and> map f mid = map f t)"
  by (auto simp: sublist_def map_eq_append_conv append_eq_map_conv) metis+

lemma ci_substring_lower:
  "sublist (map to_lower t) (map to_lower s) \<longleftrightarrow> ci_substring t s"
  unfolding ci_substring_def sublist_map_iff map_eq_same_letter ..

lemma contains_insensitive_literal:
  assumes "literal_term t"
  shows "contains_insensitive s t \<longleftrightarrow> ci_substring t s"
proof -
  have "to_lower CHR ''%'' = CHR ''%''"
    by (simp add: to_lower_special)
  then have "contains_insensitive s t
     \<longleftrightarrow> like_match (CHR ''%'' # map to_lower t @ [CHR ''%'']) (map to_lower s)"
    by (simp add: contains_insensitive_def)
  also have "\<dots> \<longleftrightarrow> sublist (map to_lower t) (map to_lower s)"
    by (rule like_contains_literal[OF literal_to_lower[OF assms]])
  finally show ?thesis by (simp add: ci_substring_lower)
qed

text \<open>
  For a term that is absent or literal, the \<^verbatim>\<open>where\<close> object of \<^verbatim>\<open>findAll\<close> selects
  exactly the notes the specification's predicate selects.
\<close>

lemma note_matches_spec_literal:
  assumes "case search of None \<Rightarrow> True | Some t \<Rightarrow> literal_term t"
  shows "note_matches (build_where u search tags) n \<longleftrightarrow> spec_selects u search tags n"
  using assms
  by (auto simp: note_matches_iff spec_selects_def contains_insensitive_literal
      split: option.splits)

lemma set_slice_subset: "set (take n (drop k xs)) \<subseteq> set xs"
  by (meson set_drop_subset set_take_subset subset_trans)

text \<open>
  So for such a term a search that misses the cache counts the notes the specification
  selects and returns none but them, each with every requested tag.
\<close>

lemma search_filter_literal:
  assumes miss: "cache_get (cache s) (key_of u q) = None"
    and p: "1 \<le> page_of q" and l: "1 \<le> limit_of q"
    and lit: "case q_search q of None \<Rightarrow> True | Some t \<Rightarrow> literal_term t"
  shows "\<exists>r. fst (findAll u q s) = Inr r
    \<and> pn_total r = int (length (filter (spec_selects u (q_search q) (q_tags q)) (db s)))
    \<and> set (pn_notes r) \<subseteq> {n \<in> set (db s). spec_selects u (q_search q) (q_tags q) n}
    \<and> (\<forall>ts. q_tags q = Some ts \<longrightarrow>
          (\<forall>n \<in> set (pn_notes r). set ts \<subseteq> set (note_tags n)))"
proof -
  let ?sel = "spec_selects u (q_search q) (q_tags q)"
  let ?pg = "take (nat (limit_of q)) (drop (nat ((page_of q - 1) * limit_of q))
      (arranged_of s u q))"
  let ?r = "\<lparr>pn_notes = ?pg,
          pn_total = int (length (filter (selected_by u q) (db s))),
          pn_page = page_of q, pn_limit = limit_of q,
          pn_totalPages =
            Finite (- ((- int (length (filter (selected_by u q) (db s)))) div limit_of q))\<rparr>"
  have r: "fst (findAll u q s) = Inr ?r"
    by (rule findAll_miss_valid[OF miss p l])
  have iff: "selected_by u q n \<longleftrightarrow> ?sel n" for n
    using note_matches_spec_literal[OF lit, of u "q_tags q" n]
      note_matches_iff[of u "q_search q" "q_tags q" n]
    by blast
  have eq: "filter (selected_by u q) (db s) = filter ?sel (db s)"
    by (rule filter_cong[OF refl]) (rule iff)
  have tot: "pn_total ?r = int (length (filter ?sel (db s)))"
    by (simp only: eq PaginatedNotes.select_convs)
  have "set ?pg \<subseteq> set (arranged_of s u q)"
    by (rule set_slice_subset)
  also have "\<dots> = set (filter (selected_by u q) (db s))"
    by (rule set_orderBy)
  also have "\<dots> = {n \<in> set (db s). ?sel n}"
    unfolding eq by simp
  finally have sub: "set (pn_notes ?r) \<subseteq> {n \<in> set (db s). ?sel n}"
    by (simp only: PaginatedNotes.select_convs)
  have tags: "\<forall>ts. q_tags q = Some ts \<longrightarrow>
      (\<forall>n \<in> set (pn_notes ?r). set ts \<subseteq> set (note_tags n))"
  proof (intro allI impI ballI)
    fix ts n assume t: "q_tags q = Some ts" and n: "n \<in> set (pn_notes ?r)"
    from n sub have "?sel n" by blast
    with t show "set ts \<subseteq> set (note_tags n)" by (simp add: spec_selects_def)
  qed
  from r tot sub tags show ?thesis by blast
qed

text \<open>
  The filter \<open>{work, urgent}\<close> returns alice's note tagged \<open>{work, urgent, extra}\<close> and
  not her note tagged \<open>{work}\<close>, nor bob's; the term \<open>REPORT\<close> finds the note titled
  \<open>Report\<close>.
\<close>

lemma search_examples:
  "fst (findAll ''alice'' q_work_urgent s_tags)
     = Inr \<lparr>pn_notes = [note_wue], pn_total = 1, pn_page = 1, pn_limit = 10,
            pn_totalPages = Finite 1\<rparr>
   \<and> fst (findAll ''alice'' q_report s_tags)
     = Inr \<lparr>pn_notes = [note_work], pn_total = 1, pn_page = 1, pn_limit = 10,
            pn_totalPages = Finite 1\<rparr>"
  by code_simp

text \<open>
  C4 fails on the code for a term with a percent sign. No note of alice in \<open>s_tags\<close> has
  a percent sign in its title or content, so the specification's predicate selects none of
  them for the term \<open>%\<close>; the search returns both, because the term reaches the store
  as part of the pattern and a percent sign there stands for any run of characters.
\<close>

theorem search_term_wildcard:
  "cache_get (cache s_tags) (key_of ''alice'' q_percent) = None
   \<and> fst (findAll ''alice'' q_percent s_tags)
       = Inr \<lparr>pn_notes = [note_wue, note_work], pn_total = 2, pn_page = 1, pn_limit = 10,
              pn_totalPages = Finite 1\<rparr>
   \<and> filter (spec_selects ''alice'' (q_search q_percent) (q_tags q_percent)) (db s_tags) = []"
  by code_simp

section \<open>Normalisation of a query\<close>

lemma normalize_tags_set:
  "set a = set b \<Longrightarrow> normalize_tags (Some a) = normalize_tags (Some b)"
proof -
  assume "set a = set b"
  then have "sorted_list_of_set (set a) = sorted_list_of_set (set b)" by simp
  then show ?thesis
    by (simp add: normalize_tags_def sorted_list_of_set_sort_remdups)
qed

lemma key_same_tag_set:
  "set a = set b \<Longrightarrow>
     generateNotesSearchKey u t (Some a) p l = generateNotesSearchKey u t (Some b) p l"
  by (simp add: generateNotesSearchKey_def normalize_tags_set[of a b])

lemma note_matches_same_tag_set:
  "set a = set b \<Longrightarrow>
     note_matches (build_where u t (Some a)) = note_matches (build_where u t (Some b))"
  by (rule ext) (simp add: note_matches_iff)

lemma query_store_same_tag_set:
  assumes "set a = set b"
  shows "query_store d tie u t (Some a) p l = query_store d tie u t (Some b) p l"
  unfolding query_store_def prisma_note_findMany_def prisma_note_count_def Let_def
    note_matches_same_tag_set[OF assms] ..

lemma findAll_same_tag_set:
  assumes "set a = set b"
  shows "findAll u (q\<lparr>q_tags := Some a\<rparr>) s = findAll u (q\<lparr>q_tags := Some b\<rparr>) s"
  by (simp add: findAll_def Let_def key_same_tag_set[OF assms] query_store_same_tag_set[OF assms]
      cong: option.case_cong sum.case_cong)

lemma validate_query_iff:
  "validate_QueryNotesDto q = Inr q \<longleftrightarrow> 1 \<le> page_of q \<and> 1 \<le> limit_of q"
  by (auto simp: validate_QueryNotesDto_def split: option.splits)

lemma controller_findAll_invalid:
  "\<not> (1 \<le> page_of q \<and> 1 \<le> limit_of q) \<Longrightarrow> controller_findAll u q s = (Inl ValidationError, s)"
  by (auto simp: controller_findAll_def validate_QueryNotesDto_def split: option.splits)

lemma controller_findAll_valid:
  "1 \<le> page_of q \<and> 1 \<le> limit_of q \<Longrightarrow> controller_findAll u q s = findAll u q s"
  by (auto simp: controller_findAll_def validate_QueryNotesDto_def split: option.splits)

lemma key_page_limit:
  "key_page (generateNotesSearchKey u t ts p l) = p \<and> key_limit (generateNotesSearchKey u t ts p l) = l"
  by (simp add: generateNotesSearchKey_def)

text \<open>
  C3, as stated, fails: a page below 1 is not raised to 1. The request with page 0 is
  rejected by the validation of the DTO; the service, called with it all the same, asks
  the store to skip a negative number of rows and fails; neither gives the result of
  page \<open>max 1 0\<close>.
\<close>

theorem query_normalisation_counterexample:
  "fst (controller_findAll ''alice'' q_page0 s_alice) = Inl ValidationError
   \<and> fst (findAll ''alice'' q_page0 s_alice) = Inl StoreError
   \<and> fst (findAll ''alice'' q_page1 s_alice)
       = Inr \<lparr>pn_notes = [alice_note], pn_total = 1, pn_page = 1, pn_limit = 10,
              pn_totalPages = Finite 1\<rparr>"
  by code_simp

text \<open>
  A limit above 100 passes the validation and is used as it is.
\<close>

lemma limit_above_100_kept:
  "fst (controller_findAll ''alice'' q_limit1000 s_alice)
     = Inr \<lparr>pn_notes = [alice_note], pn_total = 1, pn_page = 1, pn_limit = 1000,
            pn_totalPages = Finite 1\<rparr>"
  by code_simp

text \<open>
  C3, amended. A query passes the validation exactly when its page and its limit are at
  least 1 (absent ones count as 1 and 10); any other query is rejected with a validation
  error and the state is left alone. For a query that passes, the page of the key and of
  the result of a miss is the page given, which is \<open>max 1 page\<close>, and, for a limit up
  to 100, the limit of the key and of the result is the limit given, which is the limit
  clamped to 1..100. Two tag lists with the same set of tags give the same key and the
  same outcome of \<open>findAll\<close>.
\<close>

theorem query_normalisation:
  "(validate_QueryNotesDto q = Inr q \<longleftrightarrow> 1 \<le> page_of q \<and> 1 \<le> limit_of q)
 \<and> (\<not> (1 \<le> page_of q \<and> 1 \<le> limit_of q) \<longrightarrow>
       controller_findAll u q s = (Inl ValidationError, s))
 \<and> (1 \<le> page_of q \<and> 1 \<le> limit_of q \<longrightarrow>
       controller_findAll u q s = findAll u q s
       \<and> key_page (key_of u q) = max 1 (page_of q)
       \<and> (limit_of q \<le> 100 \<longrightarrow> key_limit (key_of u q) = max 1 (min 100 (limit_of q)))
       \<and> (cache_get (cache s) (key_of u q) = None \<longrightarrow>
            (\<exists>r. fst (findAll u q s) = Inr r \<and> pn_page r = max 1 (page_of q)
               \<and> (limit_of q \<le> 100 \<longrightarrow> pn_limit r = max 1 (min 100 (limit_of q))))))
 \<and> (\<forall>a b. set a = set b \<longrightarrow>
       key_of u (q\<lparr>q_tags := Some a\<rparr>) = key_of u (q\<lparr>q_tags := Some b\<rparr>)
       \<and> findAll u (q\<lparr>q_tags := Some a\<rparr>) s = findAll u (q\<lparr>q_tags := Some b\<rparr>) s)"
proof (intro conjI impI allI)
  show "validate_QueryNotesDto q = Inr q \<longleftrightarrow> 1 \<le> page_of q \<and> 1 \<le> limit_of q"
    by (rule validate_query_iff)
next
  assume "\<not> (1 \<le> page_of q \<and> 1 \<le> limit_of q)"
  then show "controller_findAll u q s = (Inl ValidationError, s)"
    by (rule controller_findAll_invalid)
next
  assume v: "1 \<le> page_of q \<and> 1 \<le> limit_of q"
  show "controller_findAll u q s = findAll u q s"
    using v by (rule controller_findAll_valid)
  show "key_page (key_of u q) = max 1 (page_of q)"
    using v by (simp add: key_page_limit)
  show "key_limit (key_of u q) = max 1 (min 100 (limit_of q))" if "limit_of q \<le> 100"
    using v that by (simp add: key_page_limit)
  show "\<exists>r. fst (findAll u q s) = Inr r \<and> pn_page r = max 1 (page_of q)
               \<and> (limit_of q \<le> 100 \<longrightarrow> pn_limit r = max 1 (min 100 (limit_of q)))"
    if miss: "cache_get (cache s) (key_of u q) = None"
  proof -
    from v have p: "1 \<le> page_of q" and l: "1 \<le> limit_of q" by simp_all
    show ?thesis
      unfolding findAll_miss_valid[OF miss p l] using p l by simp
  qed
next
  fix a b :: "string list" assume ab: "set a = set b"
  show "key_of u (q\<lparr>q_tags := Some a\<rparr>) = key_of u (q\<lparr>q_tags := Some b\<rparr>)"
    using key_same_tag_set[OF ab] by simp
  show "findAll u (q\<lparr>q_tags := Some a\<rparr>) s = findAll u (q\<lparr>q_tags := Some b\<rparr>) s"
    by (rule findAll_same_tag_set[OF ab])
qed

text \<open>
  Page 0 is rejected; page 2 with limit 5 is kept; the tag lists
  \<open>[work, urgent, work]\<close> and \<open>[urgent, work]\<close> give one key and one outcome.
\<close>

theorem query_normalisation_witness:
  "validate_QueryNotesDto q_page0 \<noteq> Inr q_page0
   \<and> controller_findAll ''alice'' q_page0 s_alice = (Inl ValidationError, s_alice)
   \<and> validate_QueryNotesDto q_tags_a = Inr q_tags_a
   \<and> controller_findAll ''alice'' q_tags_a s_tags = findAll ''alice'' q_tags_a s_tags
   \<and> key_page (key_of ''alice'' q_tags_a) = 2
   \<and> key_limit (key_of ''alice'' q_tags_a) = 5
   \<and> (\<exists>r. fst (findAll ''alice'' q_tags_a s_tags) = Inr r \<and> pn_page r = 2 \<and> pn_limit r = 5)
   \<and> key_of ''alice'' q_tags_a = key_of ''alice'' (q_tags_a\<lparr>q_tags := Some [''urgent'', ''work'']\<rparr>)
   \<and> findAll ''alice'' q_tags_a s_tags
        = findAll ''alice'' (q_tags_a\<lparr>q_tags := Some [''urgent'', ''work'']\<rparr>) s_tags"
proof -
  have inv: "\<not> (1 \<le> page_of q_page0 \<and> 1 \<le> limit_of q_page0)"
    by (simp add: q_page0_def)
  have val: "1 \<le> page_of q_tags_a \<and> 1 \<le> limit_of q_tags_a"
    and pl: "page_of q_tags_a = 2" "limit_of q_tags_a = 5"
    by (simp_all add: q_tags_a_def)
  have miss: "cache_get (cache s_tags) (key_of ''alice'' q_tags_a) = None"
    by (simp add: s_tags_def cache_get_def)
  have ts: "set [''work'', ''urgent'', ''work''] = set [''urgent'', ''work'']"
    by auto
  have self: "q_tags_a\<lparr>q_tags := Some [''work'', ''urgent'', ''work'']\<rparr> = q_tags_a"
    by (simp add: q_tags_a_def)
  note a = query_normalisation[of q_page0 "''alice''" s_alice]
  note b = query_normalisation[of q_tags_a "''alice''" s_tags]
  have 1: "validate_QueryNotesDto q_page0 \<noteq> Inr q_page0" using a inv by blast
  have 2: "controller_findAll ''alice'' q_page0 s_alice = (Inl ValidationError, s_alice)"
    using a inv by blast
  have 3: "validate_QueryNotesDto q_tags_a = Inr q_tags_a" using b val by blast
  have 4: "controller_findAll ''alice'' q_tags_a s_tags = findAll ''alice'' q_tags_a s_tags"
    using b val by blast
  have 5: "key_page (key_of ''alice'' q_tags_a) = 2" "key_limit (key_of ''alice'' q_tags_a) = 5"
    using b val pl by simp_all
  have 6: "\<exists>r. fst (findAll ''alice'' q_tags_a s_tags) = Inr r \<and> pn_page r = 2 \<and> pn_limit r = 5"
  proof -
    from b val miss obtain r where "fst (findAll ''alice'' q_tags_a s_tags) = Inr r"
      "pn_page r = max 1 (page_of q_tags_a)"
      "limit_of q_tags_a \<le> 100 \<longrightarrow> pn_limit r = max 1 (min 100 (limit_of q_tags_a))"
      by blast
    then show ?thesis using pl by auto
  qed
  from b ts have
    "key_of ''alice'' (q_tags_a\<lparr>q_tags := Some [''work'', ''urgent'', ''work'']\<rparr>)
       = key_of ''alice'' (q_tags_a\<lparr>q_tags := Some [''urgent'', ''work'']\<rparr>)
     \<and> findAll ''alice'' (q_tags_a\<lparr>q_tags := Some [''work'', ''urgent'', ''work'']\<rparr>) s_tags
       = findAll ''alice'' (q_tags_a\<lparr>q_tags := Some [''urgent'', ''work'']\<rparr>) s_tags"
    by blast
  then have 7: "key_of ''alice'' q_tags_a
       = key_of ''alice'' (q_tags_a\<lparr>q_tags := Some [''urgent'', ''work'']\<rparr>)
     \<and> findAll ''alice'' q_tags_a s_tags
       = findAll ''alice'' (q_tags_a\<lparr>q_tags := Some [''urgent'', ''work'']\<rparr>) s_tags"
    unfolding self .
  from 1 2 3 4 5 6 7 show ?thesis by blast
qed

section \<open>Validation of a create request\<close>

lemma controller_create_invalid:
  "cn_title dto = [] \<or> cn_content dto = [] \<Longrightarrow>
     controller_create u dto newId now s = (Inl ValidationError, s)"
  by (auto simp: controller_create_def validate_CreateNoteDto_def)

lemma controller_create_valid:
  "cn_title dto \<noteq> [] \<and> cn_content dto \<noteq> [] \<Longrightarrow>
     controller_create u dto newId now s = create u dto newId now s"
  by (simp add: controller_create_def validate_CreateNoteDto_def)

lemma create_fresh_id:
  assumes "newId \<notin> note_id ` set (db s)" and "store_writable s"
  shows "\<exists>n s'. create u dto newId now s = (Inr n, s')
      \<and> note_title n = cn_title dto \<and> note_content n = cn_content dto
      \<and> note_tags n = (case cn_tags dto of None \<Rightarrow> [] | Some ts \<Rightarrow> ts)
      \<and> note_userId n = u \<and> note_id n = newId \<and> db s' = db s @ [n]"
  using assms by (simp add: create_def prisma_note_create_def Let_def)

text \<open>
  The update path has no such check on \<^verbatim>\<open>content\<close>: \<^verbatim>\<open>UpdateNoteDto\<close> asks only for a
  string, and an update that empties the content of alice's note is carried out.
\<close>

lemma update_accepts_empty_content:
  "\<exists>n s'. update ''n1'' ''alice'' clear_content 9 s_alice = (Inr n, s')
     \<and> note_content n = [] \<and> db s' = [n]"
proof -
  have d: "distinct (map note_id (db s_alice))" and m: "alice_note \<in> set (db s_alice)"
    and w: "store_writable s_alice"
    by (simp_all add: s_alice_def)
  have i: "note_id alice_note = ''n1''" and u: "note_userId alice_note = ''alice''"
    by (simp_all add: alice_note_def)
  show ?thesis
    unfolding update_owned[OF d m i u w]
    by (simp add: apply_update_def clear_content_def s_alice_def alice_note_def)
qed

text \<open>
  C9 fails on the code for a note with an empty content. \<^verbatim>\<open>CreateNoteDto\<close> puts
  \<^verbatim>\<open>@IsNotEmpty()\<close> on \<^verbatim>\<open>content\<close> as it does on \<^verbatim>\<open>title\<close>: the request with the title
  \<open>Todo\<close> and an empty content is rejected with a validation error and nothing is stored.
\<close>

theorem create_rejects_empty_content:
  "cn_title empty_content = ''Todo'' \<and> cn_content empty_content = []
   \<and> controller_create ''alice'' empty_content ''n2'' 9 s_alice = (Inl ValidationError, s_alice)"
  by (simp add: controller_create_def validate_CreateNoteDto_def empty_content_def)

end
